theory Spec2Isabelle
  imports Main "HOL-Library.Sublist"
begin

section \<open>mails/static/js/mailtable.js: the self-refreshing mail table\<close>

text \<open>
  The script is one closure: an unload flag, the two hooks it hands to
  \<^verbatim>\<open>$.ajaxSetup\<close> (\<^verbatim>\<open>beforeSend\<close>, \<^verbatim>\<open>error\<close>), and the functions \<^verbatim>\<open>newTime\<close>,
  \<^verbatim>\<open>initiateSearch\<close>, \<^verbatim>\<open>initiate\<close>, \<^verbatim>\<open>refresh\<close> and \<^verbatim>\<open>scheduleRefresh\<close>.
  Each of them is a definition of the same name below. What the script does to the world
  is what it asks of the browser and of jQuery: requests handed to \<^verbatim>\<open>$.ajax\<close> and
  \<^verbatim>\<open>$.post\<close>, timers handed to \<^verbatim>\<open>setTimeout\<close>, notifications handed to
  \<^verbatim>\<open>addNotification\<close>, headers set on the request object, and changes of the document.
  These are fields of an explicit page state.

  A JavaScript string is modelled as a \<^typ>\<open>string\<close> whose characters are the code units
  below 256. \<^verbatim>\<open>undefined\<close> and \<^verbatim>\<open>null\<close> are \<^term>\<open>None\<close>.
\<close>

subsection \<open>Strings\<close>

text \<open>\<^verbatim>\<open>s.split(sep)\<close> for a separator of one character: never the empty list.\<close>

fun split :: "char \<Rightarrow> string \<Rightarrow> string list" where
  "split sep [] = [[]]"
| "split sep (c # cs) =
     (if c = sep then [] # split sep cs
      else (case split sep cs of [] \<Rightarrow> [[c]] | w # ws \<Rightarrow> (c # w) # ws))"

text \<open>
  \<^verbatim>\<open>jQuery.trim\<close> strips white space from both ends; below 256 its characters
  are tab, line feed, vertical tab, form feed, carriage return, space and the no-break
  space.
\<close>

definition whitespace :: "char \<Rightarrow> bool" where
  "whitespace c = (of_char c \<in> {9, 10, 11, 12, 13, 32, 160 :: nat})"

definition jQuery_trim :: "string \<Rightarrow> string" where
  "jQuery_trim s = rev (dropWhile whitespace (rev (dropWhile whitespace s)))"

text \<open>String concatenation with a value that may be \<^verbatim>\<open>undefined\<close>.\<close>

fun js_string :: "string option \<Rightarrow> string" where
  "js_string None = ''undefined''"
| "js_string (Some s) = s"

text \<open>
  The canonical form under which a regular expression with the flag \<^verbatim>\<open>i\<close> compares two
  characters: the upper-case letter. Below 256 the letters with an upper-case partner
  are a-z and the accented letters E0-FE other than the division sign F7; the sharp s,
  the micro sign and the y with diaeresis have none in this range and compare equal
  only to themselves. The partner is 32 below the letter: bit 5 cleared.
\<close>

definition canonicalize :: "char \<Rightarrow> char" where
  "canonicalize c =
     (let n = of_char c :: nat
      in if (97 \<le> n \<and> n \<le> 122) \<or> (224 \<le> n \<and> n \<le> 254 \<and> n \<noteq> 247)
         then (case c of Char b0 b1 b2 b3 b4 b5 b6 b7 \<Rightarrow> Char b0 b1 b2 b3 b4 False b6 b7)
         else c)"

text \<open>
  Whether the pattern, read character by character, occurs in the subject at some
  position: the scan a regular expression without special characters performs.
\<close>

fun occurs_in :: "string \<Rightarrow> string \<Rightarrow> bool" where
  "occurs_in pat [] = (pat = [])"
| "occurs_in pat (c # cs) = (prefix pat (c # cs) \<or> occurs_in pat cs)"

definition matches_ignoring_case :: "string \<Rightarrow> string \<Rightarrow> bool" where
  "matches_ignoring_case pat s = occurs_in (map canonicalize pat) (map canonicalize s)"

text \<open>The characters with a meaning of their own in a pattern.\<close>

definition special :: "char \<Rightarrow> bool" where
  "special c = (c \<in> set (CHR 0x5C # ''^$.*+?()[]{}|''))"

subsection \<open>The document\<close>

text \<open>
  An element carries what the script reads and writes of it: its tag, its \<^verbatim>\<open>id\<close>
  attribute, its classes, the string \<^verbatim>\<open>.val()\<close> reads from it, whether its own style
  displays it (\<^verbatim>\<open>.show()\<close>, \<^verbatim>\<open>.hide()\<close>), and the bindings jQuery keeps for it:
  how many popover instances and how many \<^verbatim>\<open>keyup\<close> handlers of the search filter are
  attached to it. The document is a tree of elements and text nodes; an element is
  addressed by its path from the root, the list of child positions.
\<close>

record elem =
  tag :: string
  ident :: "string option"
  classes :: "string list"
  val :: string
  displayed :: bool
  popovers :: nat
  keyups :: nat

datatype node = Text string | Element elem "node list"

type_synonym path = "nat list"

fun node_at :: "node \<Rightarrow> path \<Rightarrow> node option" where
  "node_at n [] = Some n"
| "node_at (Text t) (i # p) = None"
| "node_at (Element e cs) (i # p) = (if i < length cs then node_at (cs ! i) p else None)"

fun update_at :: "path \<Rightarrow> (node \<Rightarrow> node) \<Rightarrow> node \<Rightarrow> node" where
  "update_at [] f n = f n"
| "update_at (i # p) f (Text t) = Text t"
| "update_at (i # p) f (Element e cs) =
     (if i < length cs then Element e (cs[i := update_at p f (cs ! i)]) else Element e cs)"

definition has_class :: "string \<Rightarrow> elem \<Rightarrow> bool" where
  "has_class c e = (c \<in> set (classes e))"

definition has_tag :: "string \<Rightarrow> elem \<Rightarrow> bool" where
  "has_tag t e = (tag e = t)"

definition has_id :: "string \<Rightarrow> elem \<Rightarrow> bool" where
  "has_id i e = (ident e = Some i)"

text \<open>The elements of a subtree in document order, each with its children.\<close>

fun elements :: "node \<Rightarrow> (elem \<times> node list) list" where
  "elements (Text t) = []"
| "elements (Element e cs) = (e, cs) # concat (map elements cs)"

text \<open>\<^verbatim>\<open>$(this).find(sel)\<close>: the proper descendants that match, in document order.\<close>

fun jq_find :: "(elem \<Rightarrow> bool) \<Rightarrow> node \<Rightarrow> (elem \<times> node list) list" where
  "jq_find P (Text t) = []"
| "jq_find P (Element e cs) = filter (\<lambda>(d, ds). P d) (concat (map elements cs))"

text \<open>\<^verbatim>\<open>.val()\<close> of a matched set: the value of its first element, \<^verbatim>\<open>undefined\<close> when
  the set is empty.\<close>

definition jq_val :: "(elem \<times> node list) list \<Rightarrow> string option" where
  "jq_val matched = (case matched of [] \<Rightarrow> None | (e, cs) # _ \<Rightarrow> Some (val e))"

text \<open>\<^verbatim>\<open>$(sel)\<close> for a selector of the whole document.\<close>

definition jq_all :: "(elem \<Rightarrow> bool) \<Rightarrow> node \<Rightarrow> (elem \<times> node list) list" where
  "jq_all P doc = filter (\<lambda>(d, ds). P d) (elements doc)"

text \<open>\<^verbatim>\<open>.text()\<close> of a matched set: the text of every matched element with all its
  descendants', concatenated.\<close>

fun text_content :: "node \<Rightarrow> string" where
  "text_content (Text t) = t"
| "text_content (Element e cs) = concat (map text_content cs)"

definition jq_text :: "(elem \<times> node list) list \<Rightarrow> string" where
  "jq_text matched = concat (map (\<lambda>(e, cs). concat (map text_content cs)) matched)"

text \<open>
  \<^verbatim>\<open>$(sel).is(':visible')\<close>: some matched element takes up space in the layout. The
  layout itself is the browser's; the model takes an element to be visible when neither
  it nor an ancestor is removed from display.
\<close>

fun jq_is_visible :: "(elem \<Rightarrow> bool) \<Rightarrow> node \<Rightarrow> bool" where
  "jq_is_visible P (Text t) = False"
| "jq_is_visible P (Element e cs) = (displayed e \<and> (P e \<or> list_ex (jq_is_visible P) cs))"

text \<open>
  A method that changes each matched element on its own (a binding, its display) and
  neither the tree nor what the selector matches: every element that matches is changed
  once.
\<close>

fun map_elems :: "(elem \<Rightarrow> elem) \<Rightarrow> node \<Rightarrow> node" where
  "map_elems g (Text t) = Text t"
| "map_elems g (Element e cs) = Element (g e) (map (map_elems g) cs)"

definition jq_each :: "(elem \<Rightarrow> bool) \<Rightarrow> (elem \<Rightarrow> elem) \<Rightarrow> node \<Rightarrow> node" where
  "jq_each P g doc = map_elems (\<lambda>e. if P e then g e else e) doc"

text \<open>\<^verbatim>\<open>document.getElementById\<close>: the path of the first element, in document order,
  that matches.\<close>

fun first_path :: "(elem \<Rightarrow> bool) \<Rightarrow> node \<Rightarrow> path option"
  and first_path_in :: "(elem \<Rightarrow> bool) \<Rightarrow> nat \<Rightarrow> node list \<Rightarrow> path option" where
  "first_path P (Text t) = None"
| "first_path P (Element e cs) = (if P e then Some [] else first_path_in P 0 cs)"
| "first_path_in P i [] = None"
| "first_path_in P i (c # cs) =
     (case first_path P c of Some p \<Rightarrow> Some (i # p) | None \<Rightarrow> first_path_in P (Suc i) cs)"

text \<open>\<^verbatim>\<open>$(evt.target).closest(sel)\<close>: the nearest element that matches among the target
  and its ancestors. \<^term>\<open>lineage\<close> lists them from the root down to the target.\<close>

fun lineage :: "node \<Rightarrow> path \<Rightarrow> elem list" where
  "lineage (Text t) p = []"
| "lineage (Element e cs) [] = [e]"
| "lineage (Element e cs) (i # p) = e # (if i < length cs then lineage (cs ! i) p else [])"

definition closest :: "(elem \<Rightarrow> bool) \<Rightarrow> node \<Rightarrow> path \<Rightarrow> elem option" where
  "closest P doc target =
     (case node_at doc target of
        Some (Element e cs) \<Rightarrow> find P (rev (lineage doc target))
      | _ \<Rightarrow> None)"

text \<open>\<^verbatim>\<open>.attr('id')\<close> of the result: \<^verbatim>\<open>undefined\<close> when there is no such element or it
  has no such attribute.\<close>

definition attr_id :: "elem option \<Rightarrow> string option" where
  "attr_id m = (case m of None \<Rightarrow> None | Some e \<Rightarrow> ident e)"

subsection \<open>What the script calls\<close>

text \<open>
  What the script reads from the browser and three functions of the platform are
  parameters of the model, the functions each where the result is beyond what is
  modelled here:
  \<^item> \<^verbatim>\<open>document.cookie\<close>, which the script reads and never writes;
  \<^item> \<^verbatim>\<open>decodeURIComponent\<close>, \<^term>\<open>None\<close> where it throws \<^verbatim>\<open>URIError\<close>;
  \<^item> \<^verbatim>\<open>new RegExp(key, 'i')\<close> for a key that has special characters: the test the
    compiled pattern performs, \<^term>\<open>None\<close> where the constructor throws
    \<^verbatim>\<open>SyntaxError\<close>;
  \<^item> jQuery's selector engine for a selector other than \<^verbatim>\<open>#\<close> and a name of letters,
    digits, underscores and hyphens (which jQuery resolves by
    \<^verbatim>\<open>getElementById\<close>): the paths it selects, \<^term>\<open>None\<close> where it throws.
\<close>

datatype js_error = URIError | SyntaxError

record js_lib =
  cookie :: string
  decodeURIComponent :: "string \<Rightarrow> string option"
  RegExp :: "string \<Rightarrow> (string \<Rightarrow> bool) option"
  Sizzle :: "string \<Rightarrow> node \<Rightarrow> path list option"

definition RegExp_i :: "js_lib \<Rightarrow> string \<Rightarrow> (string \<Rightarrow> bool) option" where
  "RegExp_i lib key =
     (if list_ex special key then RegExp lib key else Some (matches_ignoring_case key))"

definition id_char :: "char \<Rightarrow> bool" where
  "id_char c =
     (let n = of_char c :: nat
      in (48 \<le> n \<and> n \<le> 57) \<or> (65 \<le> n \<and> n \<le> 90) \<or> (97 \<le> n \<and> n \<le> 122)
         \<or> c = CHR ''_'' \<or> c = CHR ''-'')"

definition jq_id :: "string \<Rightarrow> node \<Rightarrow> path list" where
  "jq_id name doc = (case first_path (has_id name) doc of None \<Rightarrow> [] | Some p \<Rightarrow> [p])"

definition jq :: "js_lib \<Rightarrow> string \<Rightarrow> node \<Rightarrow> path list option" where
  "jq lib selector doc =
     (case selector of
        [] \<Rightarrow> Sizzle lib selector doc
      | c # name \<Rightarrow>
          if c = CHR ''#'' \<and> name \<noteq> [] \<and> list_all id_char name then Some (jq_id name doc)
          else Sizzle lib selector doc)"

text \<open>\<^verbatim>\<open>.text(v)\<close> and \<^verbatim>\<open>.html(data)\<close> replace the children of an element. The
  fragment \<^verbatim>\<open>data\<close> is modelled as the nodes the browser parses it to; they are new
  elements, with no binding.\<close>

definition jq_set_text :: "string \<Rightarrow> node \<Rightarrow> node" where
  "jq_set_text v n =
     (case n of Text t \<Rightarrow> Text t | Element e cs \<Rightarrow> Element e (if v = [] then [] else [Text v]))"

definition unbound :: "elem \<Rightarrow> elem" where
  "unbound e = e\<lparr>popovers := 0, keyups := 0\<rparr>"

definition jq_set_html :: "node list \<Rightarrow> node \<Rightarrow> node" where
  "jq_set_html data n =
     (case n of Text t \<Rightarrow> Text t | Element e cs \<Rightarrow> Element e (map (map_elems unbound) data))"

subsection \<open>The page\<close>

text \<open>
  A request is what the script hands to \<^verbatim>\<open>$.ajax\<close> or \<^verbatim>\<open>$.post\<close>: method, URL, form
  data and the function to call on success, which is one of the script's two closures.
  \<^term>\<open>requests\<close> holds the requests that have no response yet, \<^term>\<open>timers\<close> the pending
  \<^verbatim>\<open>setTimeout\<close> calls with their delay in milliseconds, \<^term>\<open>notifications\<close> the calls
  of \<^verbatim>\<open>addNotification\<close>. \<^term>\<open>initiated\<close> counts the calls of \<^verbatim>\<open>initiate\<close>.

  A function of the script either returns or is left by an exception; the script
  catches none. Either way the page is as the function has left it.
\<close>

datatype callback = Refresh_success | NewTime_done "string option" "string option"

record request =
  http_method :: string
  url :: string
  form :: "(string \<times> string option) list"
  success :: callback

datatype timer_function = ScheduleRefresh

record notification =
  ntype :: string
  ntext :: string

record page =
  isPageBeingRefreshed :: bool
  document :: node
  requests :: "request list"
  timers :: "(timer_function \<times> nat) list"
  notifications :: "notification list"
  initiated :: nat

datatype outcome = Returns page | Throws js_error page

fun page_of :: "outcome \<Rightarrow> page" where
  "page_of (Returns s) = s"
| "page_of (Throws e s) = s"

definition onbeforeunload :: "page \<Rightarrow> page" where
  "onbeforeunload s = s\<lparr>isPageBeingRefreshed := True\<rparr>"

subsection \<open>The request hooks\<close>

text \<open>
  jQuery runs \<^verbatim>\<open>beforeSend\<close> on every request before it sends it and \<^verbatim>\<open>error\<close> on every
  request that failed. \<^verbatim>\<open>beforeSend\<close> throws when \<^verbatim>\<open>decodeURIComponent\<close> does; that is
  a result of the hook below.
\<close>

fun getCookie_loop :: "js_lib \<Rightarrow> string \<Rightarrow> string list \<Rightarrow> js_error + string option" where
  "getCookie_loop lib name [] = Inr None"
| "getCookie_loop lib name (c # cookies) =
     (let cookie = jQuery_trim c
      in if take (length name + 1) cookie = name @ ''=''
         then (case decodeURIComponent lib (drop (length name + 1) cookie) of
                 None \<Rightarrow> Inl URIError
               | Some cookieValue \<Rightarrow> Inr (Some cookieValue))
         else getCookie_loop lib name cookies)"

definition getCookie :: "js_lib \<Rightarrow> string \<Rightarrow> string \<Rightarrow> js_error + string option" where
  "getCookie lib document_cookie name =
     (if document_cookie \<noteq> []
      then getCookie_loop lib name (split CHR '';'' document_cookie)
      else Inr None)"

text \<open>The request object, as far as the hook touches it: the calls of
  \<^verbatim>\<open>setRequestHeader\<close> on it, in order.\<close>

type_synonym xhr = "(string \<times> string option) list"

definition setRequestHeader :: "string \<Rightarrow> string option \<Rightarrow> xhr \<Rightarrow> xhr" where
  "setRequestHeader name v x = x @ [(name, v)]"

definition beforeSend :: "js_lib \<Rightarrow> string \<Rightarrow> xhr \<Rightarrow> string \<Rightarrow> js_error + xhr" where
  "beforeSend lib document_cookie x settings_url =
     (if \<not> (prefix ''http:'' settings_url \<or> prefix ''https:'' settings_url)
      then (case getCookie lib document_cookie ''csrftoken'' of
              Inl e \<Rightarrow> Inl e
            | Inr token \<Rightarrow> Inr (setRequestHeader ''X-CSRFToken'' token x))
      else Inr x)"

definition addNotification :: "notification \<Rightarrow> page \<Rightarrow> page" where
  "addNotification n s = s\<lparr>notifications := notifications s @ [n]\<rparr>"

text \<open>\<^verbatim>\<open>$('.modal').modal('hide')\<close> takes every modal dialog from display.\<close>

definition modal_hide :: "page \<Rightarrow> page" where
  "modal_hide s =
     s\<lparr>document := jq_each (has_class ''modal'') (\<lambda>e. e\<lparr>displayed := False\<rparr>) (document s)\<rparr>"

definition error :: "nat \<Rightarrow> page \<Rightarrow> page" where
  "error jqXHR_status s =
     (if \<not> isPageBeingRefreshed s
      then (let message = (if jqXHR_status = 404 then ''404 - Page not found''
                           else ''Ooops, something went wrong'')
            in modal_hide (addNotification \<lparr>ntype = ''danger'', ntext = message\<rparr> s))
      else s)"

subsection \<open>The due-date updater\<close>

text \<open>
  \<^verbatim>\<open>$.ajax(settings)\<close>, a GET when the settings name no type, and \<^verbatim>\<open>$.post\<close>. The
  script has handed the request over from here on. jQuery runs \<^verbatim>\<open>beforeSend\<close> on a new
  request object inside the call, before it sends anything and with nothing around it
  to catch an exception: when the hook throws, the call throws, and the request that
  was handed over is never sent. It stays in \<^term>\<open>requests\<close>; a browser brings no
  response for it.
\<close>

definition ajax :: "js_lib \<Rightarrow> request \<Rightarrow> page \<Rightarrow> outcome" where
  "ajax lib r s =
     (let s' = s\<lparr>requests := requests s @ [r]\<rparr>
      in case beforeSend lib (cookie lib) [] (url r) of
           Inl e \<Rightarrow> Throws e s'
         | Inr x \<Rightarrow> Returns s')"

text \<open>\<^verbatim>\<open>evt.target\<close> is the path of an element. \<^term>\<open>evt_due\<close> is
  \<^verbatim>\<open>$(evt.target).find('input').val()\<close> and \<^term>\<open>evt_id\<close> is
  \<^verbatim>\<open>$(evt.target).closest('tr').attr('id')\<close>, the variables \<^verbatim>\<open>due\<close> and \<^verbatim>\<open>id\<close> of the
  source.\<close>

definition evt_due :: "node \<Rightarrow> path \<Rightarrow> string option" where
  "evt_due doc evt_target =
     jq_val (case node_at doc evt_target of
               None \<Rightarrow> []
             | Some n \<Rightarrow> jq_find (has_tag ''input'') n)"

definition evt_id :: "node \<Rightarrow> path \<Rightarrow> string option" where
  "evt_id doc evt_target = attr_id (closest (has_tag ''tr'') doc evt_target)"

definition newTime :: "js_lib \<Rightarrow> path \<Rightarrow> page \<Rightarrow> outcome" where
  "newTime lib evt_target s =
     (let due = evt_due (document s) evt_target;
          row_id = evt_id (document s) evt_target
      in ajax lib
           \<lparr>http_method = ''POST'',
            url = ''/mails/update/'' @ js_string row_id @ ''/'',
            form = [(''due'', due)],
            success = NewTime_done row_id due\<rparr> s)"

text \<open>The function given to \<^verbatim>\<open>.done\<close>. With \<^verbatim>\<open>due\<close> undefined, \<^verbatim>\<open>.text(due)\<close> reads
  the text and sets nothing.\<close>

definition newTime_done :: "js_lib \<Rightarrow> string option \<Rightarrow> string option \<Rightarrow> page \<Rightarrow> page" where
  "newTime_done lib row_id due s =
     (case jq lib (''#due-'' @ js_string row_id) (document s) of
        None \<Rightarrow> s
      | Some duefield \<Rightarrow>
          (case due of
             None \<Rightarrow> s
           | Some v \<Rightarrow>
               s\<lparr>document := fold (\<lambda>p. update_at p (jq_set_text v)) duefield (document s)\<rparr>))"

subsection \<open>The search filter\<close>

definition item_text :: "node \<Rightarrow> string" where
  "item_text this =
     (let subject = jq_text (jq_find (has_class ''subject'') this);
          sent = jq_text (jq_find (has_class ''sent'') this);
          due = jq_text (jq_find (has_class ''due'') this)
      in subject @ '' '' @ sent @ '' '' @ due)"

text \<open>The loop over \<^verbatim>\<open>$('.item')\<close>: each item reads its own descendants' text and
  changes its own display only.\<close>

fun each_item :: "(string \<Rightarrow> bool) \<Rightarrow> node \<Rightarrow> node" where
  "each_item regex_test (Text t) = Text t"
| "each_item regex_test (Element e cs) =
     Element
       (if has_class ''item'' e
        then (if regex_test (item_text (Element e cs))
              then e\<lparr>displayed := True\<rparr>
              else e\<lparr>displayed := False\<rparr>)
        else e)
       (map (each_item regex_test) cs)"

text \<open>The handler bound to \<^verbatim>\<open>keyup\<close>; \<^verbatim>\<open>this\<close> is the search field.\<close>

definition search_keyup :: "js_lib \<Rightarrow> elem \<Rightarrow> node \<Rightarrow> js_error + node" where
  "search_keyup lib this doc =
     (let key = val this
      in case RegExp_i lib key of
           None \<Rightarrow> Inl SyntaxError
         | Some regex_test \<Rightarrow> Inr (each_item regex_test doc))"

definition initiateSearch :: "page \<Rightarrow> page" where
  "initiateSearch s =
     s\<lparr>document := jq_each (has_class ''search'') (\<lambda>e. e\<lparr>keyups := Suc (keyups e)\<rparr>) (document s)\<rparr>"

subsection \<open>The initializer\<close>

text \<open>The popover plugin keeps its instance in the element's data: \<^verbatim>\<open>'destroy'\<close>
  removes it, a call with options attaches one where there is none.\<close>

definition popover_destroy :: "elem \<Rightarrow> elem" where
  "popover_destroy e = e\<lparr>popovers := 0\<rparr>"

definition popover :: "elem \<Rightarrow> elem" where
  "popover e = (if popovers e = 0 then e\<lparr>popovers := 1\<rparr> else e)"

definition initiate :: "page \<Rightarrow> page" where
  "initiate s =
     (let s1 = s\<lparr>document := jq_each (has_class ''add-popover'') popover_destroy (document s)\<rparr>;
          s2 = s1\<lparr>document := jq_each (has_class ''add-popover'') popover (document s1)\<rparr>
      in initiateSearch (s2\<lparr>initiated := Suc (initiated s2)\<rparr>))"

subsection \<open>The refresh loop\<close>

definition truthy :: "string option \<Rightarrow> bool" where
  "truthy v = (case v of None \<Rightarrow> False | Some s \<Rightarrow> s \<noteq> [])"

definition refresh :: "js_lib \<Rightarrow> page \<Rightarrow> outcome" where
  "refresh lib s =
     (if jq_is_visible (has_class ''bootstrap-datetimepicker-widget'') (document s) \<or>
         truthy (jq_val (jq_all (has_class ''search'') (document s))) \<or>
         jq_is_visible (has_class ''popover'') (document s)
      then Returns s
      else ajax lib \<lparr>http_method = ''GET'', url = ''/mails/table/'', form = [],
                      success = Refresh_success\<rparr> s)"

text \<open>The function given as \<^verbatim>\<open>success\<close>.\<close>

definition refresh_success :: "node list \<Rightarrow> page \<Rightarrow> page" where
  "refresh_success data s =
     initiate (s\<lparr>document := fold (\<lambda>p. update_at p (jq_set_html data))
                                  (jq_id ''list'' (document s)) (document s)\<rparr>)"

definition setTimeout :: "timer_function \<Rightarrow> nat \<Rightarrow> page \<Rightarrow> page" where
  "setTimeout f ms s = s\<lparr>timers := timers s @ [(f, ms)]\<rparr>"

text \<open>\<^verbatim>\<open>refresh()\<close> comes first: when it throws, \<^verbatim>\<open>setTimeout\<close> is not reached.\<close>

definition scheduleRefresh :: "js_lib \<Rightarrow> page \<Rightarrow> outcome" where
  "scheduleRefresh lib s =
     (case refresh lib s of
        Throws e s' \<Rightarrow> Throws e s'
      | Returns s' \<Rightarrow> Returns (setTimeout ScheduleRefresh (10 * 1000) s'))"

subsection \<open>The page at load and the events after it\<close>

text \<open>The page when the script starts, and the script's body: the flag is false, the
  hooks are registered, \<^verbatim>\<open>initiate()\<close> and \<^verbatim>\<open>scheduleRefresh()\<close> run. When the
  latter throws, the script ends there, with what \<^verbatim>\<open>initiate()\<close> has bound.\<close>

definition loaded :: "node \<Rightarrow> page" where
  "loaded doc =
     \<lparr>isPageBeingRefreshed = False, document = doc, requests = [], timers = [],
      notifications = [], initiated = 0\<rparr>"

definition main :: "js_lib \<Rightarrow> node \<Rightarrow> outcome" where
  "main lib doc = scheduleRefresh lib (initiate (loaded doc))"

text \<open>
  A response settles the request at a position of \<^term>\<open>requests\<close>: jQuery calls the
  request's success function with the fragment, or the \<^verbatim>\<open>error\<close> hook with the status.
  The events admit a response to any request there, so more than a browser brings.
  A timeout runs the oldest pending timer. The user edits the value of a form field, and
  a keystroke runs the \<^verbatim>\<open>keyup\<close> handlers bound to the element at the path, as many
  times as there are handlers; a handler that throws changes nothing. \<^verbatim>\<open>newTime\<close> is
  bound to no event anywhere in the script, and is not visible outside its closure;
  \<^term>\<open>Commit\<close> stands for a call of it with the event's target, as if it were bound.
  An exception that leaves a timer's function or a handler ends it, and the page goes on
  as the function has left it. The platform given to a step is the platform at the time
  of the event, with the cookie of that time.
\<close>

datatype response = Success "node list" | Failure nat

datatype event =
    Timeout
  | Response nat response
  | Input path string
  | Keyup path
  | Commit path
  | Beforeunload

definition respond :: "js_lib \<Rightarrow> nat \<Rightarrow> response \<Rightarrow> page \<Rightarrow> page" where
  "respond lib i r s =
     (if i < length (requests s)
      then (let s' = s\<lparr>requests := take i (requests s) @ drop (Suc i) (requests s)\<rparr>
            in case r of
                 Failure status \<Rightarrow> error status s'
               | Success data \<Rightarrow>
                   (case success (requests s ! i) of
                      Refresh_success \<Rightarrow> refresh_success data s'
                    | NewTime_done row_id due \<Rightarrow> newTime_done lib row_id due s'))
      else s)"

definition run_handler :: "js_lib \<Rightarrow> elem \<Rightarrow> node \<Rightarrow> node" where
  "run_handler lib this doc = (case search_keyup lib this doc of Inl e \<Rightarrow> doc | Inr doc' \<Rightarrow> doc')"

definition keyup :: "js_lib \<Rightarrow> path \<Rightarrow> page \<Rightarrow> page" where
  "keyup lib p s =
     (case node_at (document s) p of
        Some (Element this cs) \<Rightarrow>
          s\<lparr>document := (run_handler lib this ^^ keyups this) (document s)\<rparr>
      | _ \<Rightarrow> s)"

definition set_val :: "path \<Rightarrow> string \<Rightarrow> page \<Rightarrow> page" where
  "set_val p v s =
     s\<lparr>document :=
         update_at p (\<lambda>n. case n of Text t \<Rightarrow> Text t | Element e cs \<Rightarrow> Element (e\<lparr>val := v\<rparr>) cs)
           (document s)\<rparr>"

fun step :: "js_lib \<Rightarrow> page \<Rightarrow> event \<Rightarrow> page" where
  "step lib s Timeout =
     (case timers s of
        [] \<Rightarrow> s
      | (ScheduleRefresh, ms) # ts \<Rightarrow> page_of (scheduleRefresh lib (s\<lparr>timers := ts\<rparr>)))"
| "step lib s (Response i r) = respond lib i r s"
| "step lib s (Input p v) = set_val p v s"
| "step lib s (Keyup p) = keyup lib p s"
| "step lib s (Commit p) = page_of (newTime lib p s)"
| "step lib s Beforeunload = onbeforeunload s"

text \<open>What a page goes through: events, each with the platform of its time.\<close>

definition run :: "page \<Rightarrow> (js_lib \<times> event) list \<Rightarrow> page" where
  "run s evs = foldl (\<lambda>s (lib, ev). step lib s ev) s evs"

subsection \<open>The words of the specification\<close>

text \<open>
  An absolute URL, as the specification has it, starts with an explicit scheme: a
  letter, then letters, digits, plus, hyphen or period, then a colon.
\<close>

definition scheme_char :: "char \<Rightarrow> bool" where
  "scheme_char c =
     (let n = of_char c :: nat
      in (48 \<le> n \<and> n \<le> 57) \<or> (65 \<le> n \<and> n \<le> 90) \<or> (97 \<le> n \<and> n \<le> 122)
         \<or> c = CHR ''+'' \<or> c = CHR ''-'' \<or> c = CHR ''.'')"

definition starts_with_scheme :: "string \<Rightarrow> bool" where
  "starts_with_scheme u =
     (case u of
        [] \<Rightarrow> False
      | c # cs \<Rightarrow>
          (let n = of_char c :: nat in (65 \<le> n \<and> n \<le> 90) \<or> (97 \<le> n \<and> n \<le> 122)) \<and>
          (case dropWhile scheme_char cs of [] \<Rightarrow> False | d # ds \<Rightarrow> d = CHR '':''))"

text \<open>
  The value of a cookie as \<^verbatim>\<open>document.cookie\<close> lists it: what follows \<^verbatim>\<open>name=\<close> in the
  first of its pairs to start so, still encoded; \<^term>\<open>None\<close> when the cookie is absent.
\<close>

definition cookie_named :: "string \<Rightarrow> string \<Rightarrow> string option" where
  "cookie_named name document_cookie =
     map_option (drop (length name + 1))
       (find (prefix (name @ ''='')) (map jQuery_trim (split CHR '';'' document_cookie)))"

text \<open>What an element is by itself, without its children.\<close>

fun own :: "node \<Rightarrow> string + elem" where
  "own (Text t) = Inl t"
| "own (Element e cs) = Inr e"

text \<open>
  The three conditions under which a tick fetches nothing, in the specification's words:
  an overlay of a class is visible when some element of the class is displayed together
  with all its ancestors; the search field is the first element of class \<^verbatim>\<open>search\<close>.
\<close>

definition overlay_visible :: "string \<Rightarrow> node \<Rightarrow> bool" where
  "overlay_visible c doc =
     (\<exists>p e cs. node_at doc p = Some (Element e cs) \<and> has_class c e \<and>
        list_all displayed (lineage doc p))"

definition search_field_filled :: "node \<Rightarrow> bool" where
  "search_field_filled doc =
     (\<exists>p e cs. first_path (has_class ''search'') doc = Some p \<and>
        node_at doc p = Some (Element e cs) \<and> val e \<noteq> [])"

definition suppressed :: "node \<Rightarrow> bool" where
  "suppressed doc =
     (overlay_visible ''bootstrap-datetimepicker-widget'' doc \<or> search_field_filled doc \<or>
      overlay_visible ''popover'' doc)"

text \<open>
  The \<^verbatim>\<open>csrftoken\<close> cookie is set and its value does not decode. This is when the
  request hook throws on a request of the script.
\<close>

definition token_undecodable :: "js_lib \<Rightarrow> bool" where
  "token_undecodable lib =
     (case cookie_named ''csrftoken'' (cookie lib) of
        None \<Rightarrow> False
      | Some raw \<Rightarrow> decodeURIComponent lib raw = None)"

text \<open>Every search field has a handler for its keystrokes.\<close>

definition search_bound :: "node \<Rightarrow> bool" where
  "search_bound doc =
     list_all (\<lambda>(e, cs). 0 < keyups e) (jq_all (has_class ''search'') doc)"

text \<open>
  The frame of a change made at some elements: every node that is neither one of them
  nor inside one of them is what it was, by itself; nodes are neither added nor removed
  outside them.
\<close>

definition untouched_outside :: "path list \<Rightarrow> node \<Rightarrow> node \<Rightarrow> bool" where
  "untouched_outside targets doc doc' =
     (\<forall>q. (\<forall>p\<in>set targets. \<not> prefix p q) \<longrightarrow>
        map_option own (node_at doc' q) = map_option own (node_at doc q))"

text \<open>What one run of the initializer leaves of an element's bindings.\<close>

definition initiated_elem :: "elem \<Rightarrow> elem" where
  "initiated_elem e =
     e\<lparr>popovers := (if has_class ''add-popover'' e then 1 else popovers e),
       keyups := (if has_class ''search'' e then Suc (keyups e) else keyups e)\<rparr>"

subsection \<open>A platform and elements for the examples\<close>

text \<open>
  An instance of the platform for the examples: no cookie is set, decoding is exact on a
  string that has no escape, and every other string, every pattern with a special
  character and every selector left to the engine counts as malformed.
\<close>

definition plain_lib :: js_lib where
  "plain_lib =
     \<lparr>cookie = [],
      decodeURIComponent = (\<lambda>s. if CHR ''%'' \<in> set s then None else Some s),
      RegExp = (\<lambda>key. None),
      Sizzle = (\<lambda>selector doc. None)\<rparr>"

definition el :: "string \<Rightarrow> string option \<Rightarrow> string list \<Rightarrow> string \<Rightarrow> elem" where
  "el t i cl v =
     \<lparr>tag = t, ident = i, classes = cl, val = v, displayed = True, popovers = 0, keyups = 0\<rparr>"

text \<open>A page for the examples: a search field, and the list with a table of two rows,
  each with its subject, sent and due cells and a date control that holds an edited
  value.\<close>

definition row_cells :: "string \<Rightarrow> string \<Rightarrow> string \<Rightarrow> string \<Rightarrow> string \<Rightarrow> node list" where
  "row_cells i subject sent due edited =
     [Element (el ''td'' None [''subject''] []) [Text subject],
      Element (el ''td'' None [''sent''] []) [Text sent],
      Element (el ''td'' (Some (''due-'' @ i)) [''due''] []) [Text due],
      Element (el ''td'' None [] [])
        [Element (el ''div'' None [''date''] []) [Element (el ''input'' None [] edited) []]]]"

definition row :: "string \<Rightarrow> string \<Rightarrow> string \<Rightarrow> string \<Rightarrow> string \<Rightarrow> node" where
  "row i subject sent due edited =
     Element (el ''tr'' (Some i) [''item''] []) (row_cells i subject sent due edited)"

definition mail_page :: "string \<Rightarrow> string \<Rightarrow> node" where
  "mail_page query due =
     Element (el ''body'' None [] [])
       [Element (el ''input'' None [''search''] query) [],
        Element (el ''div'' (Some ''list'') [] [])
          [Element (el ''table'' None [] [])
             [row ''42'' ''Lunch with Foo'' ''2023-12-01'' due ''2024-01-01'',
              row ''43'' ''Invoice'' ''2023-12-02'' ''2023-12-31'' ''2023-12-31'']]]"

section \<open>Properties\<close>

subsection \<open>Cookies and the CSRF header\<close>

lemma take_eq_prefix: "(take (length p) s = p) = prefix p s"
  by (metis append_eq_conv_conj prefix_def take_is_prefix)

lemma getCookie_loop_find:
  "getCookie_loop lib name cs =
     (case find (prefix (name @ ''='')) (map jQuery_trim cs) of
        None \<Rightarrow> Inr None
      | Some c \<Rightarrow>
          (case decodeURIComponent lib (drop (length name + 1) c) of
             None \<Rightarrow> Inl URIError
           | Some v \<Rightarrow> Inr (Some v)))"
proof (induction cs)
  case Nil
  show ?case by simp
next
  case (Cons c cs)
  have "(take (length name + 1) (jQuery_trim c) = name @ ''='') = prefix (name @ ''='') (jQuery_trim c)"
    using take_eq_prefix [of "name @ ''=''" "jQuery_trim c"] by simp
  with Cons show ?case by (simp add: Let_def)
qed

text \<open>The guard on an empty \<^verbatim>\<open>document.cookie\<close> changes no result: the loop finds
  nothing in it either.\<close>

lemma getCookie_cookie_named:
  "getCookie lib document_cookie name =
     (case cookie_named name document_cookie of
        None \<Rightarrow> Inr None
      | Some raw \<Rightarrow>
          (case decodeURIComponent lib raw of
             None \<Rightarrow> Inl URIError
           | Some v \<Rightarrow> Inr (Some v)))"
proof (cases "document_cookie = []")
  case True
  then show ?thesis
    by (simp add: getCookie_def cookie_named_def jQuery_trim_def)
next
  case False
  then show ?thesis
    by (simp add: getCookie_def cookie_named_def getCookie_loop_find split: option.splits)
qed

lemma http_has_scheme: "prefix ''http:'' u \<or> prefix ''https:'' u \<Longrightarrow> starts_with_scheme u"
  by (auto simp add: prefix_def starts_with_scheme_def scheme_char_def)

text \<open>
  Claim C5, as the code has it. \<^verbatim>\<open>beforeSend\<close> decides by the literal prefixes \<^verbatim>\<open>http:\<close>
  and \<^verbatim>\<open>https:\<close>, compared case-sensitively. A URL that starts with neither, which
  includes every URL without a scheme, gets the header \<^verbatim>\<open>X-CSRFToken\<close>: its value is the
  decoded value of the \<^verbatim>\<open>csrftoken\<close> cookie, \<^verbatim>\<open>null\<close> when there is no such cookie, and
  the hook throws and sets nothing when the cookie's value does not decode. A URL that
  starts with one of the two prefixes gets no header.
\<close>

theorem csrf_header_by_url_prefix:
  "(\<not> starts_with_scheme u \<longrightarrow> \<not> prefix ''http:'' u \<and> \<not> prefix ''https:'' u) \<and>
   (\<not> prefix ''http:'' u \<and> \<not> prefix ''https:'' u \<longrightarrow>
      beforeSend lib document_cookie x u =
        (case cookie_named ''csrftoken'' document_cookie of
           None \<Rightarrow> Inr (x @ [(''X-CSRFToken'', None)])
         | Some raw \<Rightarrow>
             (case decodeURIComponent lib raw of
                None \<Rightarrow> Inl URIError
              | Some v \<Rightarrow> Inr (x @ [(''X-CSRFToken'', Some v)])))) \<and>
   (prefix ''http:'' u \<or> prefix ''https:'' u \<longrightarrow> beforeSend lib document_cookie x u = Inr x)"
  using http_has_scheme [of u]
  by (auto simp add: beforeSend_def getCookie_cookie_named setRequestHeader_def
      split: option.splits)

theorem csrf_header_by_url_prefix_witness:
  "\<not> starts_with_scheme ''/mails/table/'' \<and>
   beforeSend plain_lib ''sessionid=x1; csrftoken=abc'' [] ''/mails/table/'' =
     Inr [(''X-CSRFToken'', Some ''abc'')] \<and>
   beforeSend plain_lib ''sessionid=x1; csrftoken=abc'' [] ''https://example.com/'' = Inr []"
  using csrf_header_by_url_prefix
      [of "''/mails/table/''" plain_lib "''sessionid=x1; csrftoken=abc''" "[]"]
    csrf_header_by_url_prefix
      [of "''https://example.com/''" plain_lib "''sessionid=x1; csrftoken=abc''" "[]"]
  by (simp add: starts_with_scheme_def scheme_char_def cookie_named_def jQuery_trim_def
      whitespace_def plain_lib_def)

text \<open>
  Claim C5 as stated fails on an absolute URL whose scheme is not spelled \<^verbatim>\<open>http:\<close> or
  \<^verbatim>\<open>https:\<close> in lower case: the header is attached to a request for
  \<^verbatim>\<open>HTTPS://example.com/\<close> and to one for \<^verbatim>\<open>ftp://example.com/file\<close>.
\<close>

theorem csrf_header_on_absolute_url:
  "starts_with_scheme ''HTTPS://example.com/'' \<and>
   beforeSend plain_lib ''csrftoken=abc'' [] ''HTTPS://example.com/'' =
     Inr [(''X-CSRFToken'', Some ''abc'')] \<and>
   starts_with_scheme ''ftp://example.com/file'' \<and>
   beforeSend plain_lib ''csrftoken=abc'' [] ''ftp://example.com/file'' =
     Inr [(''X-CSRFToken'', Some ''abc'')]"
  by (simp add: starts_with_scheme_def scheme_char_def beforeSend_def getCookie_def
      jQuery_trim_def whitespace_def plain_lib_def setRequestHeader_def)

text \<open>
  Claim C9: for a request whose URL is not absolute, made while there is no
  \<^verbatim>\<open>csrftoken\<close> cookie, the header \<^verbatim>\<open>X-CSRFToken\<close> is still set, and its value is empty:
  \<^verbatim>\<open>getCookie\<close> returns \<^verbatim>\<open>null\<close>, no token, and that is what the hook hands to
  \<^verbatim>\<open>setRequestHeader\<close>. Nothing is decoded, so the hook cannot throw here.
\<close>

theorem csrf_header_without_cookie:
  assumes "\<not> starts_with_scheme u"
    and "cookie_named ''csrftoken'' document_cookie = None"
  shows "beforeSend lib document_cookie x u = Inr (x @ [(''X-CSRFToken'', None)])"
  using assms http_has_scheme [of u]
  by (auto simp add: beforeSend_def getCookie_cookie_named setRequestHeader_def)

theorem csrf_header_without_cookie_witness:
  "\<not> starts_with_scheme ''/mails/update/42/'' \<and>
   cookie_named ''csrftoken'' ''sessionid=x1; lang=en'' = None \<and>
   beforeSend plain_lib ''sessionid=x1; lang=en'' [] ''/mails/update/42/'' =
     Inr [(''X-CSRFToken'', None)] \<and>
   beforeSend plain_lib [] [] ''/mails/update/42/'' = Inr [(''X-CSRFToken'', None)]"
proof -
  have a: "\<not> starts_with_scheme ''/mails/update/42/''"
    by (simp add: starts_with_scheme_def)
  have b: "cookie_named ''csrftoken'' ''sessionid=x1; lang=en'' = None"
    by (simp add: cookie_named_def jQuery_trim_def whitespace_def)
  have c: "cookie_named ''csrftoken'' [] = None"
    by (simp add: cookie_named_def jQuery_trim_def whitespace_def)
  show ?thesis
    using a b csrf_header_without_cookie [OF a b, of plain_lib "[]"]
      csrf_header_without_cookie [OF a c, of plain_lib "[]"]
    by simp
qed

subsection \<open>Elements, paths and matched sets\<close>

lemma elements_map_elems:
  "elements (map_elems g n) = map (\<lambda>(e, cs). (g e, map (map_elems g) cs)) (elements n)"
  by (induction g n rule: map_elems.induct) (simp_all add: map_concat comp_def cong: map_cong)

lemma has_class_displayed [simp]: "has_class c (e\<lparr>displayed := b\<rparr>) = has_class c e"
  by (simp add: has_class_def)

lemma not_visible_after_hide:
  "\<not> jq_is_visible (has_class c) (jq_each (has_class c) (\<lambda>e. e\<lparr>displayed := False\<rparr>) n)"
  by (induction n) (auto simp add: jq_each_def list_ex_iff)

lemma hidden_after_hide:
  "list_all (\<lambda>(e, cs). \<not> displayed e)
     (jq_all (has_class c) (jq_each (has_class c) (\<lambda>e. e\<lparr>displayed := False\<rparr>) n))"
  by (auto simp add: jq_all_def jq_each_def elements_map_elems list_all_iff split: if_splits)

text \<open>Some matched element is visible: there is a path to an element that matches, and
  every element on the path is displayed.\<close>

lemma jq_is_visible_iff:
  "jq_is_visible P n =
     (\<exists>p e cs. node_at n p = Some (Element e cs) \<and> P e \<and> list_all displayed (lineage n p))"
proof (induction n)
  case (Text t)
  show ?case
  proof -
    have "node_at (Text t) p \<noteq> Some (Element e cs)" for p e cs
      by (cases p) simp_all
    then show ?thesis by simp
  qed
next
  case (Element e cs)
  show ?case
  proof
    assume v: "jq_is_visible P (Element e cs)"
    then have d: "displayed e" by simp
    show "\<exists>p e' cs'. node_at (Element e cs) p = Some (Element e' cs') \<and> P e' \<and>
            list_all displayed (lineage (Element e cs) p)"
    proof (cases "P e")
      case True
      with d have "node_at (Element e cs) [] = Some (Element e cs) \<and> P e \<and>
          list_all displayed (lineage (Element e cs) [])" by simp
      then show ?thesis by blast
    next
      case False
      with v obtain c where c: "c \<in> set cs" "jq_is_visible P c"
        by (auto simp add: list_ex_iff)
      then obtain i where i: "i < length cs" "cs ! i = c"
        by (auto simp add: in_set_conv_nth)
      from Element.IH [OF c(1)] c(2) obtain p e' cs' where
        "node_at c p = Some (Element e' cs')" "P e'" "list_all displayed (lineage c p)"
        by blast
      with i d have "node_at (Element e cs) (i # p) = Some (Element e' cs') \<and> P e' \<and>
          list_all displayed (lineage (Element e cs) (i # p))" by simp
      then show ?thesis by blast
    qed
  next
    assume "\<exists>p e' cs'. node_at (Element e cs) p = Some (Element e' cs') \<and> P e' \<and>
            list_all displayed (lineage (Element e cs) p)"
    then obtain p e' cs' where p: "node_at (Element e cs) p = Some (Element e' cs')" "P e'"
      "list_all displayed (lineage (Element e cs) p)" by blast
    show "jq_is_visible P (Element e cs)"
    proof (cases p)
      case Nil
      with p show ?thesis by simp
    next
      case (Cons i q)
      with p have i: "i < length cs" and q: "node_at (cs ! i) q = Some (Element e' cs')"
        by (simp_all split: if_splits)
      from p Cons i have d: "displayed e" and l: "list_all displayed (lineage (cs ! i) q)"
        by simp_all
      from i have m: "cs ! i \<in> set cs" by simp
      from Element.IH [OF m] q p(2) l have "jq_is_visible P (cs ! i)" by blast
      with m d show ?thesis by (auto simp add: list_ex_iff)
    qed
  qed
qed

text \<open>
  The first match in document order, two ways: the path \<^term>\<open>first_path\<close> finds leads to
  an element that matches, no child before it holds a match, and \<^verbatim>\<open>.val()\<close> of the
  matched set reads that element.
\<close>

lemma first_path_sound:
  "(case first_path P n of
      None \<Rightarrow> jq_all P n = []
    | Some p \<Rightarrow>
        (\<exists>e cs. node_at n p = Some (Element e cs) \<and> P e \<and>
           jq_val (jq_all P n) = Some (val e)))"
  and first_path_in_sound:
  "(case first_path_in P i ns of
      None \<Rightarrow>
        filter (\<lambda>(d, ds). P d) (concat (map elements ns)) = [] \<and>
        (\<forall>j<length ns. first_path P (ns ! j) = None)
    | Some q \<Rightarrow>
        (\<exists>k p e cs. q = (i + k) # p \<and> k < length ns \<and> first_path P (ns ! k) = Some p \<and>
           (\<forall>j<k. first_path P (ns ! j) = None) \<and>
           node_at (ns ! k) p = Some (Element e cs) \<and> P e \<and>
           jq_val (filter (\<lambda>(d, ds). P d) (concat (map elements ns))) = Some (val e)))"
proof (induction P n and P i ns rule: first_path_first_path_in.induct)
  case (1 P t)
  show ?case by (simp add: jq_all_def)
next
  case (2 P e cs)
  show ?case
  proof (cases "P e")
    case True
    then show ?thesis by (simp add: jq_all_def jq_val_def)
  next
    case False
    with 2 show ?thesis
      by (auto simp add: jq_all_def split: option.splits)
  qed
next
  case (3 P i)
  show ?case by simp
next
  case (4 P i c cs)
  show ?case
  proof (cases "first_path P c")
    case None
    with 4(1) have nil: "jq_all P c = []" by simp
    show ?thesis
    proof (cases "first_path_in P (Suc i) cs")
      case n2: None
      with 4(2) [OF None] have "filter (\<lambda>(d, ds). P d) (concat (map elements cs)) = []"
        and "\<forall>j<length cs. first_path P (cs ! j) = None" by simp_all
      with None n2 nil show ?thesis
        by (auto simp add: jq_all_def nth_Cons split: nat.splits)
    next
      case (Some q)
      with 4(2) [OF None] obtain k p e cs' where k: "q = (Suc i + k) # p" "k < length cs"
        "first_path P (cs ! k) = Some p" "\<forall>j<k. first_path P (cs ! j) = None"
        "node_at (cs ! k) p = Some (Element e cs')" "P e"
        "jq_val (filter (\<lambda>(d, ds). P d) (concat (map elements cs))) = Some (val e)"
        by auto
      have "\<forall>j<Suc k. first_path P ((c # cs) ! j) = None"
        using k(4) None by (auto simp add: nth_Cons split: nat.splits)
      with k nil have "q = (i + Suc k) # p \<and> Suc k < length (c # cs) \<and>
         first_path P ((c # cs) ! Suc k) = Some p \<and>
         (\<forall>j<Suc k. first_path P ((c # cs) ! j) = None) \<and>
         node_at ((c # cs) ! Suc k) p = Some (Element e cs') \<and> P e \<and>
         jq_val (filter (\<lambda>(d, ds). P d) (concat (map elements (c # cs)))) = Some (val e)"
        by (simp add: jq_all_def)
      then have "\<exists>k p e cs'. q = (i + k) # p \<and> k < length (c # cs) \<and>
         first_path P ((c # cs) ! k) = Some p \<and>
         (\<forall>j<k. first_path P ((c # cs) ! j) = None) \<and>
         node_at ((c # cs) ! k) p = Some (Element e cs') \<and> P e \<and>
         jq_val (filter (\<lambda>(d, ds). P d) (concat (map elements (c # cs)))) = Some (val e)"
        by blast
      with None Some show ?thesis by simp
    qed
  next
    case (Some p)
    with 4(1) obtain e cs' where e: "node_at c p = Some (Element e cs')" "P e"
      "jq_val (jq_all P c) = Some (val e)" by auto
    then have ne: "jq_all P c \<noteq> []" by (auto simp add: jq_val_def)
    have v: "jq_val (filter (\<lambda>(d, ds). P d) (concat (map elements (c # cs)))) = Some (val e)"
      using e(3) ne by (cases "jq_all P c") (simp_all add: jq_all_def jq_val_def)
    from Some e v have "i # p = (i + 0) # p \<and> 0 < length (c # cs) \<and>
         first_path P ((c # cs) ! 0) = Some p \<and>
         (\<forall>j<0. first_path P ((c # cs) ! j) = None) \<and>
         node_at ((c # cs) ! 0) p = Some (Element e cs') \<and> P e \<and>
         jq_val (filter (\<lambda>(d, ds). P d) (concat (map elements (c # cs)))) = Some (val e)"
      by simp
    then have "\<exists>k p' e cs'. i # p = (i + k) # p' \<and> k < length (c # cs) \<and>
         first_path P ((c # cs) ! k) = Some p' \<and>
         (\<forall>j<k. first_path P ((c # cs) ! j) = None) \<and>
         node_at ((c # cs) ! k) p' = Some (Element e cs') \<and> P e \<and>
         jq_val (filter (\<lambda>(d, ds). P d) (concat (map elements (c # cs)))) = Some (val e)"
      by blast
    with Some show ?thesis by simp
  qed
qed

lemma truthy_search_val:
  "truthy (jq_val (jq_all (has_class ''search'') doc)) = search_field_filled doc"
  using first_path_sound [of "has_class ''search''" doc]
  by (auto simp add: truthy_def search_field_filled_def jq_val_def split: option.splits)

text \<open>A call of \<^verbatim>\<open>$.ajax\<close> with a URL of the script hands the request over, and
  throws exactly when the token does not decode.\<close>

lemma ajax_outcome:
  assumes "\<not> prefix ''http:'' (url r)" and "\<not> prefix ''https:'' (url r)"
  shows "ajax lib r s =
     (if token_undecodable lib then Throws URIError (s\<lparr>requests := requests s @ [r]\<rparr>)
      else Returns (s\<lparr>requests := requests s @ [r]\<rparr>))"
  using assms
  by (simp add: ajax_def beforeSend_def getCookie_cookie_named token_undecodable_def Let_def
      split: option.splits)

lemma refresh_suppressed:
  "refresh lib s =
     (if suppressed (document s) then Returns s
      else if token_undecodable lib
      then Throws URIError
             (s\<lparr>requests := requests s @
                  [\<lparr>http_method = ''GET'', url = ''/mails/table/'', form = [],
                    success = Refresh_success\<rparr>]\<rparr>)
      else Returns
             (s\<lparr>requests := requests s @
                  [\<lparr>http_method = ''GET'', url = ''/mails/table/'', form = [],
                    success = Refresh_success\<rparr>]\<rparr>))"
proof -
  have c: "(jq_is_visible (has_class ''bootstrap-datetimepicker-widget'') (document s) \<or>
         truthy (jq_val (jq_all (has_class ''search'') (document s))) \<or>
         jq_is_visible (has_class ''popover'') (document s)) = suppressed (document s)"
    by (simp add: suppressed_def overlay_visible_def truthy_search_val jq_is_visible_iff)
  show ?thesis
    unfolding refresh_def c by (simp add: ajax_outcome)
qed

subsection \<open>The error hook\<close>

text \<open>
  Claim C6: for a failed request, with the unload flag set the hook does nothing at
  all; otherwise it shows exactly one notification, whose text is the page-not-found
  message for status 404 and the generic message for every other status, and no modal
  dialog is left displayed. A failure response runs this hook and nothing else.
\<close>

theorem error_notifies_unless_unloading:
  "(isPageBeingRefreshed s \<longrightarrow> error status s = s) \<and>
   (\<not> isPageBeingRefreshed s \<longrightarrow>
      notifications (error status s) =
        notifications s @
          [\<lparr>ntype = ''danger'',
            ntext = (if status = 404 then ''404 - Page not found''
                     else ''Ooops, something went wrong'')\<rparr>] \<and>
      \<not> jq_is_visible (has_class ''modal'') (document (error status s)) \<and>
      list_all (\<lambda>(e, cs). \<not> displayed e)
        (jq_all (has_class ''modal'') (document (error status s)))) \<and>
   (i < length (requests s) \<longrightarrow>
      step lib s (Response i (Failure status)) =
        error status (s\<lparr>requests := take i (requests s) @ drop (Suc i) (requests s)\<rparr>))"
  by (simp add: error_def modal_hide_def addNotification_def not_visible_after_hide
      hidden_after_hide respond_def)

theorem error_notifies_unless_unloading_witness:
  "notifications
     (error 404 (loaded (Element (el ''body'' None [] [])
        [Element (el ''div'' None [''modal''] []) []]))) =
     [\<lparr>ntype = ''danger'', ntext = ''404 - Page not found''\<rparr>] \<and>
   notifications
     (error 500 (loaded (Element (el ''body'' None [] [])
        [Element (el ''div'' None [''modal''] []) []]))) =
     [\<lparr>ntype = ''danger'', ntext = ''Ooops, something went wrong''\<rparr>] \<and>
   document
     (error 500 (loaded (Element (el ''body'' None [] [])
        [Element (el ''div'' None [''modal''] []) []]))) =
     Element (el ''body'' None [] [])
       [Element ((el ''div'' None [''modal''] [])\<lparr>displayed := False\<rparr>) []] \<and>
   notifications (error 404 (onbeforeunload (loaded (Element (el ''body'' None [] []) [])))) = []"
  using error_notifies_unless_unloading
      [of "loaded (Element (el ''body'' None [] []) [Element (el ''div'' None [''modal''] []) []])"
        404 0 plain_lib]
    error_notifies_unless_unloading
      [of "loaded (Element (el ''body'' None [] []) [Element (el ''div'' None [''modal''] []) []])"
        500 0 plain_lib]
    error_notifies_unless_unloading
      [of "onbeforeunload (loaded (Element (el ''body'' None [] []) []))" 404 0 plain_lib]
  by (simp add: loaded_def onbeforeunload_def error_def modal_hide_def addNotification_def
      jq_each_def el_def has_class_def)

subsection \<open>The refresh tick\<close>

text \<open>
  Claim C1: a refresh tick issues no fetch if and only if, at the tick, a date-picker
  overlay is visible, or the search field holds a non-empty value, or a popover overlay
  is visible; then it does nothing at all and returns. In every other state it issues
  one request, a GET for \<^verbatim>\<open>/mails/table/\<close>, and changes nothing else: this is what
  it hands to \<^verbatim>\<open>$.ajax\<close>, whatever the call does with it.
\<close>

theorem refresh_fetches_unless_suppressed:
  "(requests (page_of (refresh lib s)) = requests s) = suppressed (document s) \<and>
   (suppressed (document s) \<longrightarrow> refresh lib s = Returns s) \<and>
   (\<not> suppressed (document s) \<longrightarrow>
      page_of (refresh lib s) =
        s\<lparr>requests := requests s @
             [\<lparr>http_method = ''GET'', url = ''/mails/table/'', form = [],
               success = Refresh_success\<rparr>]\<rparr>)"
  by (simp add: refresh_suppressed)

theorem refresh_fetches_unless_suppressed_witness:
  "suppressed (Element (el ''body'' None [] [])
     [Element (el ''input'' None [''search''] ''abc'') [], Element (el ''div'' (Some ''list'') [] []) []]) \<and>
   requests (page_of (refresh plain_lib (loaded (Element (el ''body'' None [] [])
     [Element (el ''input'' None [''search''] ''abc'') [], Element (el ''div'' (Some ''list'') [] []) []])))) = [] \<and>
   \<not> suppressed (Element (el ''body'' None [] [])
     [Element (el ''input'' None [''search''] []) [], Element (el ''div'' (Some ''list'') [] []) []]) \<and>
   requests (page_of (refresh plain_lib (loaded (Element (el ''body'' None [] [])
     [Element (el ''input'' None [''search''] []) [], Element (el ''div'' (Some ''list'') [] []) []])))) =
     [\<lparr>http_method = ''GET'', url = ''/mails/table/'', form = [], success = Refresh_success\<rparr>]"
proof -
  let ?a = "Element (el ''body'' None [] [])
     [Element (el ''input'' None [''search''] ''abc'') [], Element (el ''div'' (Some ''list'') [] []) []]"
  let ?b = "Element (el ''body'' None [] [])
     [Element (el ''input'' None [''search''] []) [], Element (el ''div'' (Some ''list'') [] []) []]"
  have a: "requests (page_of (refresh plain_lib (loaded ?a))) = []"
    by (simp add: refresh_def loaded_def el_def has_class_def jq_all_def jq_val_def truthy_def)
  have b: "requests (page_of (refresh plain_lib (loaded ?b))) =
     [\<lparr>http_method = ''GET'', url = ''/mails/table/'', form = [], success = Refresh_success\<rparr>]"
    by (simp add: refresh_def loaded_def el_def has_class_def jq_all_def jq_val_def truthy_def
        ajax_def beforeSend_def getCookie_def plain_lib_def)
  show ?thesis
    using a b refresh_fetches_unless_suppressed [of plain_lib "loaded ?a"]
      refresh_fetches_unless_suppressed [of plain_lib "loaded ?b"]
    by (simp add: loaded_def)
qed

subsection \<open>The timer\<close>

lemma timers_initiate [simp]: "timers (initiate s) = timers s"
  by (simp add: initiate_def initiateSearch_def Let_def)

lemma timers_error [simp]: "timers (error status s) = timers s"
  by (simp add: error_def modal_hide_def addNotification_def)

lemma timers_newTime_done [simp]: "timers (newTime_done lib row_id due s) = timers s"
  by (simp add: newTime_done_def split: option.splits)

lemma timers_refresh_success [simp]: "timers (refresh_success data s) = timers s"
  by (simp add: refresh_success_def)

lemma timers_refresh [simp]: "timers (page_of (refresh lib s)) = timers s"
  by (simp add: refresh_def ajax_def Let_def split: sum.splits)

lemma timers_respond [simp]: "timers (respond lib i r s) = timers s"
  by (simp add: respond_def Let_def split: response.splits callback.splits)

lemma timers_keyup [simp]: "timers (keyup lib p s) = timers s"
  by (simp add: keyup_def split: option.splits node.splits)

lemma timers_newTime [simp]: "timers (page_of (newTime lib target s)) = timers s"
  by (simp add: newTime_def ajax_def Let_def split: sum.splits)

lemma timers_set_val [simp]: "timers (set_val p v s) = timers s"
  by (simp add: set_val_def)

lemma scheduleRefresh_outcome:
  "scheduleRefresh lib s =
     (if suppressed (document s) \<or> \<not> token_undecodable lib
      then Returns
             ((page_of (refresh lib s))\<lparr>timers := timers s @ [(ScheduleRefresh, 10 * 1000)]\<rparr>)
      else Throws URIError (page_of (refresh lib s)))"
  by (simp add: scheduleRefresh_def refresh_suppressed setTimeout_def)

lemma timers_other_step:
  "ev \<noteq> Timeout \<Longrightarrow> timers (step lib s ev) = timers s"
  by (cases ev) (simp_all add: onbeforeunload_def)

lemma one_timer_step:
  "\<not> token_undecodable lib \<Longrightarrow> timers s = [(ScheduleRefresh, 10 * 1000)] \<Longrightarrow>
   timers (step lib s ev) = [(ScheduleRefresh, 10 * 1000)]"
  by (cases ev) (simp_all add: scheduleRefresh_outcome onbeforeunload_def)

lemma run_Nil [simp]: "run s [] = s"
  by (simp add: run_def)

lemma run_Cons [simp]: "run s ((lib, ev) # evs) = run (step lib s ev) evs"
  by (simp add: run_def)

lemma one_timer_run:
  "\<forall>lib\<in>set (map fst evs). \<not> token_undecodable lib \<Longrightarrow>
   timers s = [(ScheduleRefresh, 10 * 1000)] \<Longrightarrow>
   timers (run s evs) = [(ScheduleRefresh, 10 * 1000)]"
proof (induction evs arbitrary: s)
  case Nil
  then show ?case by simp
next
  case (Cons a evs)
  obtain lib ev where a: "a = (lib, ev)" by (cases a)
  with Cons.prems have "timers (step lib s ev) = [(ScheduleRefresh, 10 * 1000)]"
    by (simp add: one_timer_step)
  with Cons.prems a show ?case by (simp add: Cons.IH)
qed

text \<open>
  Claim C8, as the code has it. A tick runs \<^verbatim>\<open>refresh()\<close> and then schedules the next
  tick. \<^verbatim>\<open>refresh()\<close> returns when the fetch is suppressed, and when the fetch is issued
  and the request hook does not throw, which is whenever the \<^verbatim>\<open>csrftoken\<close> cookie is
  absent or has a value that decodes. Then the tick schedules exactly one next tick with
  the delay of 10 * 1000 milliseconds, and does so within the tick: the request it may
  have issued is still without a response in the state the tick returns. When the hook
  throws, the exception leaves the tick before \<^verbatim>\<open>setTimeout\<close> and nothing is scheduled.
  No event but the timeout itself, so no response, failed or successful, adds or removes
  a timer: nothing in the script cancels one. With a token that decodes at load and at
  every event, exactly one tick is pending after the script has loaded and after any
  sequence of events, and when it fires exactly one is pending again.
\<close>

theorem one_tick_scheduled_by_every_tick:
  "(timers s = (ScheduleRefresh, ms) # ts \<longrightarrow>
      step lib s Timeout = page_of (scheduleRefresh lib (s\<lparr>timers := ts\<rparr>))) \<and>
   token_undecodable lib = (beforeSend lib (cookie lib) [] ''/mails/table/'' = Inl URIError) \<and>
   ((\<exists>s'. refresh lib s = Returns s') =
      (suppressed (document s) \<or> \<not> token_undecodable lib)) \<and>
   (suppressed (document s) \<or> \<not> token_undecodable lib \<longrightarrow>
      scheduleRefresh lib s =
        Returns
          ((page_of (refresh lib s))\<lparr>timers := timers s @ [(ScheduleRefresh, 10 * 1000)]\<rparr>)) \<and>
   (\<not> suppressed (document s) \<and> token_undecodable lib \<longrightarrow>
      scheduleRefresh lib s = Throws URIError (page_of (refresh lib s)) \<and>
      timers (page_of (scheduleRefresh lib s)) = timers s) \<and>
   (ev \<noteq> Timeout \<longrightarrow> timers (step lib s ev) = timers s) \<and>
   (\<not> token_undecodable lib \<and> (\<forall>l\<in>set (map fst evs). \<not> token_undecodable l) \<longrightarrow>
      timers (run (page_of (main lib doc)) evs) = [(ScheduleRefresh, 10 * 1000)] \<and>
      timers (step lib (run (page_of (main lib doc)) evs) Timeout) =
        [(ScheduleRefresh, 10 * 1000)])"
proof -
  have "timers (run (page_of (main lib doc)) evs) = [(ScheduleRefresh, 10 * 1000)]"
    if d: "\<not> token_undecodable lib" and e: "\<forall>l\<in>set (map fst evs). \<not> token_undecodable l"
  proof -
    from d have "timers (page_of (main lib doc)) = [(ScheduleRefresh, 10 * 1000)]"
      by (simp add: main_def scheduleRefresh_outcome loaded_def)
    with e show ?thesis by (rule one_timer_run)
  qed
  moreover have "(\<exists>s'. refresh lib s = Returns s') =
      (suppressed (document s) \<or> \<not> token_undecodable lib)"
    by (simp add: refresh_suppressed)
  moreover have "token_undecodable lib =
      (beforeSend lib (cookie lib) [] ''/mails/table/'' = Inl URIError)"
    by (simp add: beforeSend_def getCookie_cookie_named token_undecodable_def
        split: option.splits)
  ultimately show ?thesis
    by (simp add: scheduleRefresh_outcome one_timer_step timers_other_step)
qed

theorem one_tick_scheduled_by_every_tick_witness:
  "suppressed (Element (el ''body'' None [] [])
      [Element (el ''input'' None [''search''] ''abc'') []]) \<and>
   token_undecodable (plain_lib\<lparr>cookie := ''csrftoken=%E0%A4%A''\<rparr>) \<and>
   scheduleRefresh (plain_lib\<lparr>cookie := ''csrftoken=%E0%A4%A''\<rparr>)
     (loaded (Element (el ''body'' None [] [])
        [Element (el ''input'' None [''search''] ''abc'') []])) =
     Returns
       ((loaded (Element (el ''body'' None [] [])
           [Element (el ''input'' None [''search''] ''abc'') []]))
        \<lparr>timers := [(ScheduleRefresh, 10000)]\<rparr>) \<and>
   \<not> token_undecodable plain_lib \<and>
   timers (run (page_of (main plain_lib (Element (el ''body'' None [] []) [])))
      [(plain_lib, Timeout), (plain_lib, Response 0 (Failure 500)), (plain_lib, Timeout),
       (plain_lib, Response 0 (Success [])), (plain_lib, Beforeunload), (plain_lib, Timeout)]) =
     [(ScheduleRefresh, 10000)]"
proof -
  let ?a = "loaded (Element (el ''body'' None [] [])
      [Element (el ''input'' None [''search''] ''abc'') []])"
  let ?bad = "plain_lib\<lparr>cookie := ''csrftoken=%E0%A4%A''\<rparr>"
  have s: "suppressed (document ?a)"
    using refresh_suppressed [of plain_lib ?a]
    by (simp add: refresh_def loaded_def el_def has_class_def jq_all_def jq_val_def truthy_def
        split: if_splits)
  have r: "page_of (refresh ?bad ?a) = ?a"
    by (simp add: refresh_def loaded_def el_def has_class_def jq_all_def jq_val_def truthy_def)
  have u: "token_undecodable ?bad"
    by (simp add: token_undecodable_def cookie_named_def jQuery_trim_def whitespace_def
        plain_lib_def)
  have d: "\<not> token_undecodable plain_lib"
    by (simp add: token_undecodable_def cookie_named_def jQuery_trim_def whitespace_def
        plain_lib_def)
  from s r u d show ?thesis
    using one_tick_scheduled_by_every_tick
        [where s = ?a and lib = ?bad and ev = Beforeunload and ms = 0 and ts = "[]"
           and doc = "Element (el ''body'' None [] []) []" and evs = "[]"]
      one_tick_scheduled_by_every_tick
        [where s = ?a and lib = plain_lib and ev = Beforeunload and ms = 0 and ts = "[]"
           and doc = "Element (el ''body'' None [] []) []"
           and evs = "[(plain_lib, Timeout), (plain_lib, Response 0 (Failure 500)),
             (plain_lib, Timeout), (plain_lib, Response 0 (Success [])),
             (plain_lib, Beforeunload), (plain_lib, Timeout)]"]
    by (simp add: loaded_def)
qed

text \<open>
  Claim C8 as stated fails on a tick whose request hook throws. With the cookie
  \<^verbatim>\<open>csrftoken=%E0%A4%A\<close>, whose value is not a complete escape sequence, and nothing that
  suppresses the fetch, \<^verbatim>\<open>refresh()\<close> hands the GET to \<^verbatim>\<open>$.ajax\<close>, the hook throws
  inside the call, and the tick is left with no timer set. At load the loop never
  starts. On a page that loaded before the cookie was set, the tick that was pending
  fires and none is pending afterwards.
\<close>

theorem tick_with_undecodable_token_schedules_nothing:
  "scheduleRefresh (plain_lib\<lparr>cookie := ''csrftoken=%E0%A4%A''\<rparr>)
     (loaded (Element (el ''body'' None [] []) [])) =
     Throws URIError
       ((loaded (Element (el ''body'' None [] []) []))
        \<lparr>requests := [\<lparr>http_method = ''GET'', url = ''/mails/table/'', form = [],
                       success = Refresh_success\<rparr>]\<rparr>) \<and>
   timers (page_of (scheduleRefresh (plain_lib\<lparr>cookie := ''csrftoken=%E0%A4%A''\<rparr>)
     (loaded (Element (el ''body'' None [] []) [])))) \<noteq>
     timers (loaded (Element (el ''body'' None [] []) [])) @ [(ScheduleRefresh, 10 * 1000)] \<and>
   timers (page_of (main (plain_lib\<lparr>cookie := ''csrftoken=%E0%A4%A''\<rparr>)
     (Element (el ''body'' None [] []) []))) = [] \<and>
   timers (page_of (main plain_lib (Element (el ''body'' None [] []) []))) =
     [(ScheduleRefresh, 10 * 1000)] \<and>
   timers (step (plain_lib\<lparr>cookie := ''csrftoken=%E0%A4%A''\<rparr>)
     (page_of (main plain_lib (Element (el ''body'' None [] []) []))) Timeout) = []"
  by (simp add: main_def scheduleRefresh_def refresh_def ajax_def beforeSend_def getCookie_def
      jQuery_trim_def whitespace_def plain_lib_def setRequestHeader_def setTimeout_def
      initiate_def initiateSearch_def jq_each_def jq_all_def jq_val_def truthy_def loaded_def
      el_def has_class_def Let_def)

subsection \<open>The due-date updater\<close>

lemma closest_without_id:
  assumes "list_all (\<lambda>a. \<not> (has_tag t a \<and> ident a \<noteq> None)) (lineage doc target)"
  shows "attr_id (closest (has_tag t) doc target) = None"
proof (cases "closest (has_tag t) doc target")
  case None
  then show ?thesis by (simp add: attr_id_def)
next
  case (Some a)
  then have "find (has_tag t) (rev (lineage doc target)) = Some a"
    by (simp add: closest_def split: option.splits node.splits)
  then obtain i where "i < length (rev (lineage doc target))"
    and "has_tag t a" and "a = rev (lineage doc target) ! i"
    by (auto simp add: find_Some_iff)
  then have "a \<in> set (rev (lineage doc target))" and "has_tag t a"
    using nth_mem by blast+
  with assms have "ident a = None"
    by (auto simp add: list_all_iff)
  with Some show ?thesis by (simp add: attr_id_def)
qed

text \<open>
  Claim C10: \<^verbatim>\<open>newTime\<close> has no guard: every call issues exactly one POST, the
  request it hands to \<^verbatim>\<open>$.post\<close>. When
  neither the target nor any of its ancestors is a \<^verbatim>\<open>tr\<close> element that carries an
  \<^verbatim>\<open>id\<close> attribute, the identifier is \<^verbatim>\<open>undefined\<close> and is written so into the path:
  the POST goes to \<^verbatim>\<open>/mails/update/undefined/\<close>.
\<close>

lemma newTime_page:
  "page_of (newTime lib target s) =
     s\<lparr>requests := requests s @
          [\<lparr>http_method = ''POST'',
            url = ''/mails/update/'' @ js_string (evt_id (document s) target) @ ''/'',
            form = [(''due'', evt_due (document s) target)],
            success = NewTime_done (evt_id (document s) target) (evt_due (document s) target)\<rparr>]\<rparr>"
  by (simp add: newTime_def ajax_def Let_def split: sum.splits)

theorem newTime_posts_without_row_id:
  "length (requests (page_of (newTime lib target s))) = Suc (length (requests s)) \<and>
   http_method (last (requests (page_of (newTime lib target s)))) = ''POST'' \<and>
   (list_all (\<lambda>a. \<not> (has_tag ''tr'' a \<and> ident a \<noteq> None)) (lineage (document s) target) \<longrightarrow>
      page_of (newTime lib target s) =
         s\<lparr>requests := requests s @
              [\<lparr>http_method = ''POST'', url = ''/mails/update/undefined/'',
                form = [(''due'', evt_due (document s) target)],
                success = NewTime_done None (evt_due (document s) target)\<rparr>]\<rparr>)"
  by (simp add: newTime_page evt_id_def closest_without_id)

theorem newTime_posts_without_row_id_witness:
  "list_all (\<lambda>a. \<not> (has_tag ''tr'' a \<and> ident a \<noteq> None))
     (lineage (Element (el ''body'' None [] [])
        [Element (el ''div'' None [''date''] []) [Element (el ''input'' None [] ''2024-01-01'') []]])
      [0]) \<and>
   requests (page_of (newTime plain_lib [0] (loaded (Element (el ''body'' None [] [])
        [Element (el ''div'' None [''date''] []) [Element (el ''input'' None [] ''2024-01-01'') []]])))) =
     [\<lparr>http_method = ''POST'', url = ''/mails/update/undefined/'',
       form = [(''due'', Some ''2024-01-01'')], success = NewTime_done None (Some ''2024-01-01'')\<rparr>]"
proof -
  let ?doc = "Element (el ''body'' None [] [])
        [Element (el ''div'' None [''date''] []) [Element (el ''input'' None [] ''2024-01-01'') []]]"
  have a: "list_all (\<lambda>a. \<not> (has_tag ''tr'' a \<and> ident a \<noteq> None)) (lineage ?doc [0])"
    by (simp add: el_def has_tag_def)
  have b: "evt_due ?doc [0] = Some ''2024-01-01''"
    by (simp add: evt_due_def jq_val_def el_def has_tag_def)
  have c: "document (loaded ?doc) = ?doc" "requests (loaded ?doc) = []"
    by (simp_all add: loaded_def)
  from a c have "list_all (\<lambda>a. \<not> (has_tag ''tr'' a \<and> ident a \<noteq> None))
      (lineage (document (loaded ?doc)) [0])" by simp
  with newTime_posts_without_row_id [of plain_lib "[0]" "loaded ?doc"]
  have "page_of (newTime plain_lib [0] (loaded ?doc)) =
         (loaded ?doc)\<lparr>requests := requests (loaded ?doc) @
              [\<lparr>http_method = ''POST'', url = ''/mails/update/undefined/'',
                form = [(''due'', evt_due (document (loaded ?doc)) [0])],
                success = NewTime_done None (evt_due (document (loaded ?doc)) [0])\<rparr>]\<rparr>"
    by blast
  with a b c show ?thesis by simp
qed

subsection \<open>Updates at a path\<close>

lemma node_at_Text: "node_at (Text t) p = (if p = [] then Some (Text t) else None)"
  by (cases p) simp_all

lemma update_at_Text: "update_at p f (Text t) = (if p = [] then f (Text t) else Text t)"
  by (cases p) simp_all

lemma node_at_update_at_same:
  "node_at (update_at p f n) p = map_option f (node_at n p)"
proof (induction p arbitrary: n)
  case Nil
  show ?case by simp
next
  case (Cons i p)
  show ?case
  proof (cases n)
    case (Text t)
    then show ?thesis by simp
  next
    case (Element e cs)
    with Cons show ?thesis by simp
  qed
qed

lemma node_at_update_at_below:
  "node_at (update_at (p @ r) f n) p = map_option (update_at r f) (node_at n p)"
proof (induction p arbitrary: n)
  case Nil
  show ?case by simp
next
  case (Cons i p)
  show ?case
  proof (cases n)
    case (Text t)
    then show ?thesis by simp
  next
    case (Element e cs)
    with Cons show ?thesis by simp
  qed
qed

lemma own_update_at:
  "\<not> prefix p q \<Longrightarrow>
   map_option own (node_at (update_at p f n) q) = map_option own (node_at n q)"
proof (induction p arbitrary: q n)
  case Nil
  then show ?case by simp
next
  case (Cons i p)
  show ?case
  proof (cases n)
    case (Text t)
    then show ?thesis by simp
  next
    case (Element e cs)
    show ?thesis
    proof (cases q)
      case Nil
      with Element show ?thesis by simp
    next
      case q: (Cons j q')
      show ?thesis
      proof (cases "j = i")
        case True
        with Cons.prems q have "\<not> prefix p q'" by simp
        with Cons.IH have "map_option own (node_at (update_at p f (cs ! i)) q') =
            map_option own (node_at (cs ! i) q')" by blast
        with Element q True show ?thesis by simp
      next
        case False
        with Element q show ?thesis by simp
      qed
    qed
  qed
qed

lemma node_at_update_at_apart:
  "\<not> prefix p q \<and> \<not> prefix q p \<Longrightarrow> node_at (update_at p f n) q = node_at n q"
proof (induction p arbitrary: q n)
  case Nil
  then show ?case by simp
next
  case (Cons i p)
  show ?case
  proof (cases n)
    case (Text t)
    then show ?thesis by simp
  next
    case (Element e cs)
    show ?thesis
    proof (cases q)
      case Nil
      with Cons.prems show ?thesis by simp
    next
      case q: (Cons j q')
      show ?thesis
      proof (cases "j = i")
        case True
        with Cons.prems q have "\<not> prefix p q' \<and> \<not> prefix q' p" by simp
        with Cons.IH have "node_at (update_at p f (cs ! i)) q' = node_at (cs ! i) q'"
          by blast
        with Element q True show ?thesis by simp
      next
        case False
        with Element q show ?thesis by simp
      qed
    qed
  qed
qed

lemma own_fold_update_at:
  "\<forall>p\<in>set ps. \<not> prefix p q \<Longrightarrow>
   map_option own (node_at (fold (\<lambda>p. update_at p f) ps n) q) = map_option own (node_at n q)"
  by (induction ps arbitrary: n) (simp_all add: own_update_at)

lemma jq_set_text_twice:
  "update_at r (jq_set_text v) (Element e (if v = [] then [] else [Text v])) =
   Element e (if v = [] then [] else [Text v])" if "r \<noteq> []"
proof (cases r)
  case Nil
  with that show ?thesis by simp
next
  case (Cons i r')
  then show ?thesis
    by (simp add: update_at_Text jq_set_text_def)
qed

lemma text_kept:
  assumes "node_at n p = Some (Element e (if v = [] then [] else [Text v]))"
    and "\<not> strict_prefix p' p"
  shows "node_at (update_at p' (jq_set_text v) n) p =
         Some (Element e (if v = [] then [] else [Text v]))"
proof (cases "prefix p p'")
  case True
  then obtain r where r: "p' = p @ r" by (auto simp add: prefix_def)
  show ?thesis
  proof (cases "r = []")
    case True
    with r assms(1) show ?thesis
      by (simp add: node_at_update_at_same jq_set_text_def)
  next
    case False
    with r assms(1) show ?thesis
      by (simp add: node_at_update_at_below jq_set_text_twice)
  qed
next
  case False
  with assms(2) have np: "\<not> prefix p' p" by (auto simp add: strict_prefix_def)
  from np False have "node_at (update_at p' (jq_set_text v) n) p = node_at n p"
    by (intro node_at_update_at_apart) simp
  with assms(1) show ?thesis by simp
qed

lemma text_kept_fold:
  assumes "node_at n p = Some (Element e (if v = [] then [] else [Text v]))"
    and "\<forall>p'\<in>set ps. \<not> strict_prefix p' p"
  shows "node_at (fold (\<lambda>p. update_at p (jq_set_text v)) ps n) p =
         Some (Element e (if v = [] then [] else [Text v]))"
  using assms by (induction ps arbitrary: n) (simp_all add: text_kept)

lemma text_set_fold:
  assumes "p \<in> set ps"
    and "\<forall>p'\<in>set ps. \<not> strict_prefix p' p"
    and "node_at n p = Some (Element e cs)"
  shows "node_at (fold (\<lambda>p. update_at p (jq_set_text v)) ps n) p =
         Some (Element e (if v = [] then [] else [Text v]))"
  using assms
proof (induction ps arbitrary: n cs)
  case Nil
  then show ?case by simp
next
  case (Cons p' ps)
  show ?case
  proof (cases "p' = p")
    case True
    with Cons.prems have "node_at (update_at p' (jq_set_text v) n) p =
        Some (Element e (if v = [] then [] else [Text v]))"
      by (simp add: node_at_update_at_same jq_set_text_def)
    with Cons.prems have "node_at (fold (\<lambda>p. update_at p (jq_set_text v)) ps
        (update_at p' (jq_set_text v) n)) p = Some (Element e (if v = [] then [] else [Text v]))"
      by (intro text_kept_fold) simp_all
    then show ?thesis by simp
  next
    case False
    with Cons.prems have "\<not> prefix p' p" by (auto simp add: strict_prefix_def)
    then have "map_option own (node_at (update_at p' (jq_set_text v) n) p) =
        map_option own (node_at n p)" by (rule own_update_at)
    with Cons.prems obtain cs' where "node_at (update_at p' (jq_set_text v) n) p =
        Some (Element e cs')"
      by (cases "node_at (update_at p' (jq_set_text v) n) p")
        (auto elim: own.elims)
    moreover from Cons.prems False have "p \<in> set ps" "\<forall>p'\<in>set ps. \<not> strict_prefix p' p"
      by simp_all
    ultimately have "node_at (fold (\<lambda>p. update_at p (jq_set_text v)) ps
        (update_at p' (jq_set_text v) n)) p = Some (Element e (if v = [] then [] else [Text v]))"
      by (rule Cons.IH [rotated 2])
    then show ?thesis by simp
  qed
qed

subsection \<open>The due-date cell\<close>

lemma document_error:
  "document (error status s) =
     (if isPageBeingRefreshed s then document s
      else jq_each (has_class ''modal'') (\<lambda>e. e\<lparr>displayed := False\<rparr>) (document s))"
  by (simp add: error_def modal_hide_def addNotification_def)

lemma jq_due_simple:
  "list_all id_char r \<Longrightarrow> jq lib (''#due-'' @ r) doc = Some (jq_id (''due-'' @ r) doc)"
  by (simp add: jq_def id_char_def)

lemma newTime_done_frame:
  "requests (newTime_done lib row_id due s) = requests s \<and>
   notifications (newTime_done lib row_id due s) = notifications s \<and>
   initiated (newTime_done lib row_id due s) = initiated s \<and>
   isPageBeingRefreshed (newTime_done lib row_id due s) = isPageBeingRefreshed s"
  by (simp add: newTime_done_def split: option.splits)

text \<open>
  Claim C7: a commit issues the POST to \<^verbatim>\<open>/mails/update/{id}/\<close> and changes nothing
  else: the document is as it was while the request is pending. A success response to
  that request runs the function given to \<^verbatim>\<open>.done\<close> and nothing else. That function
  sets the text of the elements \<^verbatim>\<open>#due-{id}\<close> selects to the new value and leaves
  every node outside them as it was; it issues no request, schedules nothing, shows
  nothing and does not run the initializer. For an identifier of letters, digits,
  underscores and hyphens the selector picks the first element with the id
  \<^verbatim>\<open>due-{id}\<close>, if there is one. A failure response leaves the document to the error
  hook, which changes no text and only takes modal dialogs from display.
\<close>

theorem due_cell_set_only_on_success:
  "page_of (newTime lib target s) =
     s\<lparr>requests := requests s @
          [\<lparr>http_method = ''POST'',
            url = ''/mails/update/'' @ js_string (evt_id (document s) target) @ ''/'',
            form = [(''due'', evt_due (document s) target)],
            success = NewTime_done (evt_id (document s) target) (evt_due (document s) target)\<rparr>]\<rparr> \<and>
   (i < length (requests s) \<and> success (requests s ! i) = NewTime_done row_id (Some v) \<longrightarrow>
      step lib s (Response i (Success data)) =
        newTime_done lib row_id (Some v)
          (s\<lparr>requests := take i (requests s) @ drop (Suc i) (requests s)\<rparr>)) \<and>
   requests (newTime_done lib row_id (Some v) s) = requests s \<and>
   timers (newTime_done lib row_id (Some v) s) = timers s \<and>
   notifications (newTime_done lib row_id (Some v) s) = notifications s \<and>
   initiated (newTime_done lib row_id (Some v) s) = initiated s \<and>
   (jq lib (''#due-'' @ js_string row_id) (document s) = None \<longrightarrow>
      newTime_done lib row_id (Some v) s = s) \<and>
   (\<forall>duefield. jq lib (''#due-'' @ js_string row_id) (document s) = Some duefield \<longrightarrow>
      untouched_outside duefield (document s) (document (newTime_done lib row_id (Some v) s)) \<and>
      (\<forall>p\<in>set duefield. \<forall>e cs.
         (\<forall>p'\<in>set duefield. \<not> strict_prefix p' p) \<and>
         node_at (document s) p = Some (Element e cs) \<longrightarrow>
         node_at (document (newTime_done lib row_id (Some v) s)) p =
           Some (Element e (if v = [] then [] else [Text v])))) \<and>
   (list_all id_char (js_string row_id) \<longrightarrow>
      jq lib (''#due-'' @ js_string row_id) (document s) =
        Some (case first_path (has_id (''due-'' @ js_string row_id)) (document s) of
                None \<Rightarrow> [] | Some p \<Rightarrow> [p])) \<and>
   (i < length (requests s) \<longrightarrow>
      document (step lib s (Response i (Failure status))) =
        (if isPageBeingRefreshed s then document s
         else jq_each (has_class ''modal'') (\<lambda>e. e\<lparr>displayed := False\<rparr>) (document s)))"
proof (intro conjI allI impI ballI)
  show "page_of (newTime lib target s) =
     s\<lparr>requests := requests s @
          [\<lparr>http_method = ''POST'',
            url = ''/mails/update/'' @ js_string (evt_id (document s) target) @ ''/'',
            form = [(''due'', evt_due (document s) target)],
            success = NewTime_done (evt_id (document s) target) (evt_due (document s) target)\<rparr>]\<rparr>"
    by (rule newTime_page)
next
  assume "i < length (requests s) \<and> success (requests s ! i) = NewTime_done row_id (Some v)"
  then show "step lib s (Response i (Success data)) =
        newTime_done lib row_id (Some v)
          (s\<lparr>requests := take i (requests s) @ drop (Suc i) (requests s)\<rparr>)"
    by (simp add: respond_def)
next
  show "requests (newTime_done lib row_id (Some v) s) = requests s"
    by (simp add: newTime_done_frame)
next
  show "timers (newTime_done lib row_id (Some v) s) = timers s"
    by simp
next
  show "notifications (newTime_done lib row_id (Some v) s) = notifications s"
    by (simp add: newTime_done_frame)
next
  show "initiated (newTime_done lib row_id (Some v) s) = initiated s"
    by (simp add: newTime_done_frame)
next
  assume "jq lib (''#due-'' @ js_string row_id) (document s) = None"
  then show "newTime_done lib row_id (Some v) s = s"
    by (simp add: newTime_done_def)
next
  fix duefield
  assume "jq lib (''#due-'' @ js_string row_id) (document s) = Some duefield"
  then have d: "document (newTime_done lib row_id (Some v) s) =
      fold (\<lambda>p. update_at p (jq_set_text v)) duefield (document s)"
    by (simp add: newTime_done_def)
  show "untouched_outside duefield (document s) (document (newTime_done lib row_id (Some v) s))"
    unfolding d untouched_outside_def by (intro allI impI own_fold_update_at)
  fix p e cs
  assume "p \<in> set duefield"
    and "(\<forall>p'\<in>set duefield. \<not> strict_prefix p' p) \<and> node_at (document s) p = Some (Element e cs)"
  then show "node_at (document (newTime_done lib row_id (Some v) s)) p =
           Some (Element e (if v = [] then [] else [Text v]))"
    unfolding d by (intro text_set_fold) blast+
next
  assume "list_all id_char (js_string row_id)"
  then show "jq lib (''#due-'' @ js_string row_id) (document s) =
        Some (case first_path (has_id (''due-'' @ js_string row_id)) (document s) of
                None \<Rightarrow> [] | Some p \<Rightarrow> [p])"
    using jq_due_simple [of "js_string row_id" lib "document s"] by (simp add: jq_id_def)
next
  assume "i < length (requests s)"
  then show "document (step lib s (Response i (Failure status))) =
        (if isPageBeingRefreshed s then document s
         else jq_each (has_class ''modal'') (\<lambda>e. e\<lparr>displayed := False\<rparr>) (document s))"
    by (simp add: respond_def document_error)
qed

theorem due_cell_set_only_on_success_witness:
  "page_of (newTime plain_lib [1, 0, 0, 3, 0] (loaded (mail_page [] ''2023-12-24''))) =
     (loaded (mail_page [] ''2023-12-24''))
       \<lparr>requests :=
          [\<lparr>http_method = ''POST'', url = ''/mails/update/42/'',
            form = [(''due'', Some ''2024-01-01'')],
            success = NewTime_done (Some ''42'') (Some ''2024-01-01'')\<rparr>]\<rparr> \<and>
   step plain_lib (step plain_lib (loaded (mail_page [] ''2023-12-24'')) (Commit [1, 0, 0, 3, 0]))
     (Response 0 (Success [])) = loaded (mail_page [] ''2024-01-01'') \<and>
   document (step plain_lib
     (step plain_lib (loaded (mail_page [] ''2023-12-24'')) (Commit [1, 0, 0, 3, 0]))
     (Response 0 (Failure 500))) = mail_page [] ''2023-12-24''"
proof -
  let ?s = "loaded (mail_page [] ''2023-12-24'')"
  let ?s1 = "page_of (newTime plain_lib [1, 0, 0, 3, 0] ?s)"
  let ?r = "\<lparr>http_method = ''POST'', url = ''/mails/update/42/'',
            form = [(''due'', Some ''2024-01-01'')],
            success = NewTime_done (Some ''42'') (Some ''2024-01-01'')\<rparr>"
  have i: "evt_id (document ?s) [1, 0, 0, 3, 0] = Some ''42''"
    by (simp add: evt_id_def closest_def attr_id_def loaded_def mail_page_def row_def
        row_cells_def el_def has_tag_def)
  have d: "evt_due (document ?s) [1, 0, 0, 3, 0] = Some ''2024-01-01''"
    by (simp add: evt_due_def jq_val_def loaded_def mail_page_def row_def
        row_cells_def el_def has_tag_def)
  from due_cell_set_only_on_success [of plain_lib "[1, 0, 0, 3, 0]" ?s 0 "Some ''42''"
      "''2024-01-01''" "[]" 500] i d
  have a: "?s1 = ?s\<lparr>requests := requests ?s @ [?r]\<rparr>"
    by simp
  have rq: "requests ?s = []" by (simp add: loaded_def)
  have a': "?s1 = ?s\<lparr>requests := [?r]\<rparr>"
    unfolding a rq by simp
  from a' have pre: "0 < length (requests ?s1) \<and>
      success (requests ?s1 ! 0) = NewTime_done (Some ''42'') (Some ''2024-01-01'')"
    by simp
  from due_cell_set_only_on_success [of plain_lib "[1, 0, 0, 3, 0]" ?s1 0 "Some ''42''"
      "''2024-01-01''" "[]" 500] pre
  have b: "step plain_lib ?s1 (Response 0 (Success [])) =
      newTime_done plain_lib (Some ''42'') (Some ''2024-01-01'')
        (?s1\<lparr>requests := take 0 (requests ?s1) @ drop (Suc 0) (requests ?s1)\<rparr>)"
    and f: "document (step plain_lib ?s1 (Response 0 (Failure 500))) =
        (if isPageBeingRefreshed ?s1 then document ?s1
         else jq_each (has_class ''modal'') (\<lambda>e. e\<lparr>displayed := False\<rparr>) (document ?s1))"
    by blast+
  have "newTime_done plain_lib (Some ''42'') (Some ''2024-01-01'')
        (?s1\<lparr>requests := take 0 (requests ?s1) @ drop (Suc 0) (requests ?s1)\<rparr>) =
      loaded (mail_page [] ''2024-01-01'')"
    by (simp only: a')
      (simp add: newTime_done_def jq_def jq_id_def id_char_def jq_set_text_def loaded_def
        mail_page_def row_def row_cells_def el_def has_id_def)
  with b have b': "step plain_lib ?s1 (Response 0 (Success [])) =
      loaded (mail_page [] ''2024-01-01'')"
    by (rule trans)
  have "(if isPageBeingRefreshed ?s1 then document ?s1
         else jq_each (has_class ''modal'') (\<lambda>e. e\<lparr>displayed := False\<rparr>) (document ?s1)) =
      mail_page [] ''2023-12-24''"
    by (simp only: a')
      (simp add: jq_each_def loaded_def mail_page_def row_def row_cells_def el_def
        has_class_def)
  with f have f': "document (step plain_lib ?s1 (Response 0 (Failure 500))) =
      mail_page [] ''2023-12-24''"
    by (rule trans)
  have "step plain_lib ?s (Commit [1, 0, 0, 3, 0]) = ?s1" by simp
  with a' b' f' show ?thesis by simp
qed

subsection \<open>The first match, after a change\<close>

lemma node_at_map_elems:
  "node_at (map_elems g n) p = map_option (map_elems g) (node_at n p)"
proof (induction p arbitrary: n)
  case Nil
  show ?case by simp
next
  case (Cons i p)
  then show ?case by (cases n) simp_all
qed

lemma map_elems_map_elems: "map_elems f (map_elems g n) = map_elems (f \<circ> g) n"
  by (induction n) simp_all

lemma first_path_map_elems:
  "(\<forall>e. P (g e) = P e) \<longrightarrow> first_path P (map_elems g n) = first_path P n"
  and first_path_in_map_elems:
  "(\<forall>e. P (g e) = P e) \<longrightarrow>
     first_path_in P i (map (map_elems g) ns) = first_path_in P i ns"
  by (induction P n and P i ns rule: first_path_first_path_in.induct)
    (auto split: option.splits)

lemma first_path_in_complete:
  "k < length ns \<Longrightarrow> first_path P (ns ! k) = Some p \<Longrightarrow>
   \<forall>j<k. first_path P (ns ! j) = None \<Longrightarrow>
   first_path_in P i ns = Some ((i + k) # p)"
proof (induction ns arbitrary: i k)
  case Nil
  then show ?case by simp
next
  case (Cons c cs)
  show ?case
  proof (cases k)
    case 0
    with Cons.prems show ?thesis by simp
  next
    case (Suc k')
    with Cons.prems have "first_path P c = None" by auto
    moreover from Cons.prems Suc have "first_path_in P (Suc i) cs = Some ((Suc i + k') # p)"
      by (intro Cons.IH) auto
    ultimately show ?thesis using Suc by simp
  qed
qed

lemma first_path_update_at:
  assumes "first_path P n = Some p" and "\<And>m. own (f m) = own m"
  shows "first_path P (update_at p f n) = Some p"
  using assms(1)
proof (induction p arbitrary: n)
  case Nil
  show ?case
  proof (cases n)
    case (Text t)
    with Nil show ?thesis by simp
  next
    case (Element e cs)
    with Nil have "P e"
      using first_path_in_sound [where P = P and i = 0 and ns = cs] by (auto split: if_splits)
    moreover from Element assms(2) [of n] obtain cs' where "f n = Element e cs'"
      by (cases "f n") auto
    ultimately show ?thesis by simp
  qed
next
  case (Cons i p)
  show ?case
  proof (cases n)
    case (Text t)
    with Cons.prems show ?thesis by simp
  next
    case (Element e cs)
    with Cons.prems have ne: "\<not> P e" and fi: "first_path_in P 0 cs = Some (i # p)"
      by (auto split: if_splits)
    from fi first_path_in_sound [where P = P and i = 0 and ns = cs]
    have i: "i < length cs" and fp: "first_path P (cs ! i) = Some p"
      and before: "\<forall>j<i. first_path P (cs ! j) = None"
      by auto
    from fp have "first_path P (update_at p f (cs ! i)) = Some p" by (rule Cons.IH)
    with i before
    have "first_path_in P 0 (cs[i := update_at p f (cs ! i)]) = Some ((0 + i) # p)"
      by (intro first_path_in_complete) simp_all
    with Element ne i show ?thesis by simp
  qed
qed

subsection \<open>The initializer and the success of a refresh\<close>

lemma initiate_eq:
  "initiate s =
     s\<lparr>document := map_elems initiated_elem (document s), initiated := Suc (initiated s)\<rparr>"
proof -
  have "(\<lambda>e. if has_class ''search'' e then e\<lparr>keyups := Suc (keyups e)\<rparr> else e) \<circ>
        (\<lambda>e. if has_class ''add-popover'' e then popover e else e) \<circ>
        (\<lambda>e. if has_class ''add-popover'' e then popover_destroy e else e) = initiated_elem"
    by (rule ext) (simp add: initiated_elem_def popover_def popover_destroy_def has_class_def)
  then show ?thesis
    by (simp add: initiate_def initiateSearch_def Let_def jq_each_def map_elems_map_elems)
qed

lemma unbound_initiated_elem: "unbound \<circ> (initiated_elem \<circ> unbound) = unbound"
  by (rule ext) (simp add: unbound_def initiated_elem_def)

lemma has_id_initiated_elem: "has_id i (initiated_elem e) = has_id i e"
  by (simp add: has_id_def initiated_elem_def)

lemma own_jq_set_html: "own (jq_set_html d m) = own m"
  by (cases m) (simp_all add: jq_set_html_def)

lemma tick_then_success:
  assumes "\<not> suppressed (document s)"
  shows "step lib (page_of (scheduleRefresh lib s)) (Response (length (requests s)) (Success d)) =
     refresh_success d
       (s\<lparr>timers := (if token_undecodable lib then timers s
                      else timers s @ [(ScheduleRefresh, 10 * 1000)])\<rparr>)"
  using assms
  by (simp add: scheduleRefresh_outcome refresh_suppressed respond_def nth_append)

text \<open>
  Claim C3: when the fetch of a refresh tick succeeds with the fragment \<^verbatim>\<open>d\<close>, the
  success function leaves the container with the id \<^verbatim>\<open>list\<close> (the first element with
  that id, before and after) with \<^verbatim>\<open>d\<close> as its content: its children are the nodes
  of \<^verbatim>\<open>d\<close> with the bindings the initializer has just attached, the same markup.
  The initializer has run exactly once more. A success response to the request of a
  refresh runs this function and nothing else; so a tick that fetches, followed by the
  success of its request, leaves the container with \<^verbatim>\<open>d\<close> and the initializer run
  once more than before the tick.
\<close>

theorem refresh_success_replaces_list:
  assumes "first_path (has_id ''list'') (document s) = Some p"
  shows "first_path (has_id ''list'') (document (refresh_success d s)) = Some p \<and>
     (\<exists>e cs. node_at (document (refresh_success d s)) p = Some (Element e cs) \<and>
        has_id ''list'' e \<and>
        cs = map (map_elems (initiated_elem \<circ> unbound)) d \<and>
        map (map_elems unbound) cs = map (map_elems unbound) d) \<and>
     initiated (refresh_success d s) = Suc (initiated s) \<and>
     (i < length (requests s) \<and> success (requests s ! i) = Refresh_success \<longrightarrow>
        step lib s (Response i (Success d)) =
          refresh_success d (s\<lparr>requests := take i (requests s) @ drop (Suc i) (requests s)\<rparr>)) \<and>
     (\<not> suppressed (document s) \<longrightarrow>
        (\<exists>e cs. node_at (document (step lib (page_of (scheduleRefresh lib s))
                     (Response (length (requests s)) (Success d)))) p = Some (Element e cs) \<and>
           has_id ''list'' e \<and> map (map_elems unbound) cs = map (map_elems unbound) d) \<and>
        initiated (step lib (page_of (scheduleRefresh lib s))
                     (Response (length (requests s)) (Success d))) =
          Suc (initiated s))"
proof -
  have main: "first_path (has_id ''list'') (document (refresh_success d t)) = Some p \<and>
     (\<exists>e cs. node_at (document (refresh_success d t)) p = Some (Element e cs) \<and>
        has_id ''list'' e \<and>
        cs = map (map_elems (initiated_elem \<circ> unbound)) d \<and>
        map (map_elems unbound) cs = map (map_elems unbound) d) \<and>
     initiated (refresh_success d t) = Suc (initiated t)"
    if t: "first_path (has_id ''list'') (document t) = Some p" for t
  proof -
    let ?doc1 = "update_at p (jq_set_html d) (document t)"
    have doc: "document (refresh_success d t) = map_elems initiated_elem ?doc1"
      using t by (simp add: refresh_success_def initiate_eq jq_id_def)
    from t first_path_sound [of "has_id ''list''" "document t"]
    obtain e0 cs0 where e0: "node_at (document t) p = Some (Element e0 cs0)" "has_id ''list'' e0"
      by auto
    have "first_path (has_id ''list'') ?doc1 = Some p"
      using t by (rule first_path_update_at) (rule own_jq_set_html)
    then have a: "first_path (has_id ''list'') (document (refresh_success d t)) = Some p"
      using first_path_map_elems [of "has_id ''list''" initiated_elem ?doc1]
      by (simp add: doc has_id_initiated_elem)
    have n: "node_at (document (refresh_success d t)) p =
        Some (Element (initiated_elem e0) (map (map_elems (initiated_elem \<circ> unbound)) d))"
      using e0 by (simp add: doc node_at_map_elems node_at_update_at_same jq_set_html_def
          map_elems_map_elems comp_def)
    have u: "map (map_elems unbound) (map (map_elems (initiated_elem \<circ> unbound)) d) =
        map (map_elems unbound) d"
      by (simp add: map_elems_map_elems unbound_initiated_elem)
    have c: "initiated (refresh_success d t) = Suc (initiated t)"
      by (simp add: refresh_success_def initiate_eq)
    from e0 have "has_id ''list'' (initiated_elem e0)" by (simp add: has_id_initiated_elem)
    with a n u c show ?thesis by blast
  qed
  have r: "i < length (requests s) \<and> success (requests s ! i) = Refresh_success \<longrightarrow>
        step lib s (Response i (Success d)) =
          refresh_success d (s\<lparr>requests := take i (requests s) @ drop (Suc i) (requests s)\<rparr>)"
    by (simp add: respond_def)
  have sc: "(\<exists>e cs. node_at (document (step lib (page_of (scheduleRefresh lib s))
                     (Response (length (requests s)) (Success d)))) p = Some (Element e cs) \<and>
           has_id ''list'' e \<and> map (map_elems unbound) cs = map (map_elems unbound) d) \<and>
        initiated (step lib (page_of (scheduleRefresh lib s))
                     (Response (length (requests s)) (Success d))) =
          Suc (initiated s)"
    if ns: "\<not> suppressed (document s)"
  proof -
    let ?t = "s\<lparr>timers := (if token_undecodable lib then timers s
                            else timers s @ [(ScheduleRefresh, 10 * 1000)])\<rparr>"
    from assms have "first_path (has_id ''list'') (document ?t) = Some p" by simp
    from main [OF this] tick_then_success [OF ns, of lib d] show ?thesis by auto
  qed
  from main [OF assms] r sc show ?thesis by blast
qed

theorem refresh_success_replaces_list_witness:
  "first_path (has_id ''list'') (document (loaded (mail_page [] ''2023-12-24''))) = Some [1] \<and>
   first_path (has_id ''list'')
     (document (refresh_success [row ''44'' ''New'' ''2024-01-02'' ''2024-01-03'' []]
        (loaded (mail_page [] ''2023-12-24'')))) = Some [1] \<and>
   node_at
     (document (refresh_success [row ''44'' ''New'' ''2024-01-02'' ''2024-01-03'' []]
        (loaded (mail_page [] ''2023-12-24'')))) [1] =
     Some (Element (el ''div'' (Some ''list'') [] [])
       [row ''44'' ''New'' ''2024-01-02'' ''2024-01-03'' []]) \<and>
   initiated (refresh_success [row ''44'' ''New'' ''2024-01-02'' ''2024-01-03'' []]
        (loaded (mail_page [] ''2023-12-24''))) = 1"
proof -
  let ?s = "loaded (mail_page [] ''2023-12-24'')"
  let ?d = "[row ''44'' ''New'' ''2024-01-02'' ''2024-01-03'' []]"
  have h: "first_path (has_id ''list'') (document ?s) = Some [1]"
    by (simp add: loaded_def mail_page_def has_id_def el_def)
  from refresh_success_replaces_list [OF h, of ?d 0 plain_lib]
  have a: "first_path (has_id ''list'') (document (refresh_success ?d ?s)) = Some [1]"
    and c: "initiated (refresh_success ?d ?s) = Suc (initiated ?s)"
    by blast+
  have n': "node_at (document (refresh_success ?d ?s)) [1] =
      Some (Element (el ''div'' (Some ''list'') [] []) ?d)"
    by (simp add: refresh_success_def initiate_eq jq_id_def loaded_def mail_page_def
        row_def row_cells_def has_id_def has_class_def el_def jq_set_html_def
        initiated_elem_def unbound_def)
  from c have "initiated (refresh_success ?d ?s) = 1" by (simp add: loaded_def)
  with h a n' show ?thesis by blast
qed

subsection \<open>The search filter\<close>







lemma item_text_displayed:
  "item_text (Element (e\<lparr>displayed := b\<rparr>) cs) = item_text (Element e cs)"
  by (simp add: item_text_def)





subsection \<open>The search fields are bound while the page lives\<close>


lemma search_bound_iff:
  "search_bound doc = (\<forall>(e, cs)\<in>set (elements doc). has_class ''search'' e \<longrightarrow> 0 < keyups e)"
  by (auto simp add: search_bound_def jq_all_def list_all_iff)

lemma search_bound_Text [simp]: "search_bound (Text t)"
  by (simp add: search_bound_iff)










lemma document_scheduleRefresh [simp]:
  "document (page_of (scheduleRefresh lib s)) = document s"
  by (simp add: scheduleRefresh_outcome refresh_suppressed)






subsection \<open>The initializer, twice\<close>

lemma initiate_twice:
  "initiate (initiate s) =
     s\<lparr>document := map_elems (initiated_elem \<circ> initiated_elem) (document s),
       initiated := Suc (Suc (initiated s))\<rparr>"
  by (simp add: initiate_eq map_elems_map_elems)

lemma initiated_elem_twice:
  "popovers (initiated_elem (initiated_elem e)) =
     (if has_class ''add-popover'' e then 1 else popovers e) \<and>
   keyups (initiated_elem (initiated_elem e)) =
     (if has_class ''search'' e then Suc (Suc (keyups e)) else keyups e)"
  by (simp add: initiated_elem_def has_class_def)

text \<open>Every \<^verbatim>\<open>.add-popover\<close> element has exactly one popover after the initializer,
  run once or twice.\<close>

lemma one_popover_after_initiate:
  "list_all (\<lambda>(e, cs). popovers e = 1)
     (jq_all (has_class ''add-popover'') (document (initiate s))) \<and>
   list_all (\<lambda>(e, cs). popovers e = 1)
     (jq_all (has_class ''add-popover'') (document (initiate (initiate s))))"
  by (auto simp add: initiate_eq map_elems_map_elems jq_all_def elements_map_elems list_all_iff
      initiated_elem_def has_class_def)

text \<open>
  Claim C2 fails on the code. The popover half holds: \<^verbatim>\<open>initiate\<close> destroys the
  popover of every \<^verbatim>\<open>.add-popover\<close> element before it attaches one, so there is
  exactly one after any number of calls. \<^verbatim>\<open>initiateSearch\<close> has no such step: each
  call binds one more \<^verbatim>\<open>keyup\<close> handler to every \<^verbatim>\<open>.search\<close> element. On a page with
  one search field and one popover link, two calls in a row leave the field with two
  handlers.
\<close>

theorem initiate_twice_binds_keyup_twice:
  "document (initiate (initiate (loaded (Element (el ''body'' None [] [])
      [Element (el ''input'' None [''search''] []) [],
       Element (el ''a'' None [''add-popover''] []) []])))) =
   Element (el ''body'' None [] [])
     [Element ((el ''input'' None [''search''] [])\<lparr>keyups := 2\<rparr>) [],
      Element ((el ''a'' None [''add-popover''] [])\<lparr>popovers := 1\<rparr>) []]"
  by (simp add: initiate_def initiateSearch_def jq_each_def loaded_def el_def has_class_def
      popover_def popover_destroy_def Let_def)

subsection \<open>Further properties\<close>

text \<open>Both requests of the script have a URL that starts with a slash, so the hook sets
  the header on both, on the GET for the table as well, and throws on both when the
  token does not decode.\<close>

lemma script_requests_carry_csrf_header:
  "beforeSend lib document_cookie x ''/mails/table/'' =
     (case cookie_named ''csrftoken'' document_cookie of
        None \<Rightarrow> Inr (x @ [(''X-CSRFToken'', None)])
      | Some raw \<Rightarrow>
          (case decodeURIComponent lib raw of
             None \<Rightarrow> Inl URIError
           | Some v \<Rightarrow> Inr (x @ [(''X-CSRFToken'', Some v)]))) \<and>
   beforeSend lib document_cookie x (''/mails/update/'' @ js_string row_id @ ''/'') =
     beforeSend lib document_cookie x ''/mails/table/''"
  by (simp add: beforeSend_def getCookie_cookie_named setRequestHeader_def split: option.splits)

text \<open>The unload flag is never reset, and once it is set no notification is shown,
  whatever happens afterwards.\<close>

lemma flag_initiate [simp]: "isPageBeingRefreshed (initiate s) = isPageBeingRefreshed s"
  by (simp add: initiate_eq)

lemma notifications_initiate [simp]: "notifications (initiate s) = notifications s"
  by (simp add: initiate_eq)

lemma unloading_step:
  "isPageBeingRefreshed s \<Longrightarrow>
   isPageBeingRefreshed (step lib s ev) \<and> notifications (step lib s ev) = notifications s"
proof (cases ev)
  case Timeout
  assume "isPageBeingRefreshed s"
  with Timeout show ?thesis
    by (simp add: scheduleRefresh_outcome refresh_suppressed
        split: list.splits timer_function.splits)
next
  case (Response i r)
  assume "isPageBeingRefreshed s"
  with Response show ?thesis
    by (simp add: respond_def Let_def error_def refresh_success_def newTime_done_def
        split: response.splits callback.splits option.splits)
next
  case (Input p v)
  assume "isPageBeingRefreshed s"
  with Input show ?thesis
    by (simp add: set_val_def)
next
  case (Keyup p)
  assume "isPageBeingRefreshed s"
  with Keyup show ?thesis
    by (simp add: keyup_def split: option.splits node.splits)
next
  case (Commit p)
  assume "isPageBeingRefreshed s"
  with Commit show ?thesis
    by (simp add: newTime_page)
next
  case Beforeunload
  assume "isPageBeingRefreshed s"
  with Beforeunload show ?thesis
    by (simp add: onbeforeunload_def)
qed

lemma unloading_run:
  "isPageBeingRefreshed s \<Longrightarrow>
   isPageBeingRefreshed (run s evs) \<and> notifications (run s evs) = notifications s"
proof (induction evs arbitrary: s)
  case Nil
  then show ?case by simp
next
  case (Cons a evs)
  obtain lib ev where e: "a = (lib, ev)" by (cases a)
  from Cons.prems unloading_step [of s lib ev]
  have a: "isPageBeingRefreshed (step lib s ev)" and b: "notifications (step lib s ev) = notifications s"
    by simp_all
  from Cons.IH [OF a] b e show ?case by simp
qed

lemma nothing_shown_once_unloading:
  "isPageBeingRefreshed (run (step lib s Beforeunload) evs) \<and>
   notifications (run (step lib s Beforeunload) evs) = notifications s"
  using unloading_run [of "step lib s Beforeunload" evs]
  by (simp add: onbeforeunload_def)

text \<open>A keystroke whose query does not compile throws before any item is touched: the
  page is as it was.\<close>

lemma malformed_pattern_changes_nothing:
  assumes "RegExp_i lib (val this) = None"
    and "node_at (document s) p = Some (Element this cs)"
  shows "search_keyup lib this (document s) = Inl SyntaxError \<and> step lib s (Keyup p) = s"
proof -
  have "run_handler lib this = (\<lambda>doc. doc)"
    using assms(1) by (intro ext) (simp add: run_handler_def search_keyup_def)
  then have "(run_handler lib this ^^ n) doc = doc" for n doc
    by (induction n) simp_all
  with assms show ?thesis by (simp add: keyup_def search_keyup_def)
qed

end
